theory Spec2Isabelle
  imports Main "HOL-Library.Word"
begin

text \<open>
  A shallow embedding of the package \<^verbatim>\<open>cron\<close> of go-cron: the parser of one crontab
  line, five time fields and a command, into the expanded minutes, hours, days of the
  month, months and days of the week. Each Go function is a HOL function of the same
  name. A result of type \<open>error + 'a\<close> is Go's pair of a value and an error, \<open>Inl\<close> the
  error; a result of type \<open>'a option\<close> around it is \<open>None\<close> when the call never returns.
\<close>

section \<open>Data model\<close>

text \<open>
  The package works on Go's \<^verbatim>\<open>uint8\<close>: an 8-bit word whose addition wraps around.
  Go strings are byte sequences, here \<^typ>\<open>string\<close>. A nil slice and an empty slice
  are both the empty list.
\<close>

type_synonym uint8 = "8 word"

record Expression =
  Minutes :: "uint8 list"
  Hours :: "uint8 list"
  MonthDays :: "uint8 list"
  Months :: "uint8 list"
  WeekDays :: "uint8 list"
  Command :: string

text \<open>The zero value of the named result \<^verbatim>\<open>e Expression\<close>.\<close>

definition zero_Expression :: Expression where
  "zero_Expression =
     \<lparr>Minutes = [], Hours = [], MonthDays = [], Months = [], WeekDays = [], Command = []\<rparr>"

definition numExressionArgs :: nat where "numExressionArgs = 6"

definition minutesMin :: uint8 where "minutesMin = 0"
definition minutesMax :: uint8 where "minutesMax = 59"
definition hoursMin :: uint8 where "hoursMin = 0"
definition hoursMax :: uint8 where "hoursMax = 23"
definition daysInMonthMin :: uint8 where "daysInMonthMin = 1"
definition daysInMonthMax :: uint8 where "daysInMonthMax = 31"
definition monthsMin :: uint8 where "monthsMin = 1"
definition monthsMax :: uint8 where "monthsMax = 12"
definition weekdaysMin :: uint8 where "weekdaysMin = 0"
definition weekdaysMax :: uint8 where "weekdaysMax = 6"

text \<open>
  Every error value the package builds, one constructor per message; a constructor with
  an \<open>error\<close> argument wraps its cause (\<^verbatim>\<open>%w\<close>). \<open>ErrSyntax\<close> and \<open>ErrRange\<close>
  are the two failures of \<^verbatim>\<open>strconv.ParseUint\<close>.
\<close>

datatype error =
    ErrSyntax
  | ErrRange
  | CouldNotParseValue error
  | ValueMustBeInRange uint8 uint8
  | ExpectedRange "string list"
  | InvalidBeginOfRange string error
  | InvalidEndOfRange string error
  | InvalidRange uint8 uint8
  | ExpectedStep
  | InvalidStep string error
  | MalformedIntervals
  | CouldNotParseStartingPoint error
  | CouldNotParseRepeatedInterval error
  | RepeatedIntervalZero
  | InvalidRepeatedInterval uint8 uint8
  | ExpectedArg
  | CouldNotParseExactValue error
  | InvalidMinutesArg error
  | InvalidHoursArg error
  | InvalidMonthdaysArg error
  | InvalidMonthArg error
  | InvalidWeekdaysArg error
  | ExpectedCommand

text \<open>
  What a call of \<^verbatim>\<open>ParseExpression\<close> does when it comes back: it returns the pair
  \<^verbatim>\<open>(e, err)\<close>, with \<open>None\<close> for a nil error, or it panics on an index out of range
  (the index and the length of the slice).
\<close>

datatype outcome =
    Return Expression "error option"
  | Panic nat nat

section \<open>The library functions the package calls\<close>

text \<open>\<^verbatim>\<open>strings.Index\<close> for a one-byte separator: the first position of the byte.\<close>

fun Index :: "string \<Rightarrow> char \<Rightarrow> nat option" where
  "Index [] sep = None"
| "Index (c # cs) sep = (if c = sep then Some 0 else map_option Suc (Index cs sep))"

text \<open>
  The loop of \<^verbatim>\<open>strings.genSplit\<close> for a one-byte separator; the third argument is the
  number of cuts still allowed (\<^verbatim>\<open>n - 1 - i\<close>).
\<close>

fun genSplit :: "string \<Rightarrow> char \<Rightarrow> nat \<Rightarrow> string list" where
  "genSplit s sep 0 = [s]"
| "genSplit s sep (Suc k) =
     (case Index s sep of
        None \<Rightarrow> [s]
      | Some m \<Rightarrow> take m s # genSplit (drop (Suc m) s) sep k)"

text \<open>\<^verbatim>\<open>strings.Split(s, sep)\<close>: \<^verbatim>\<open>n = Count(s, sep) + 1\<close> parts.\<close>

definition Split :: "string \<Rightarrow> char \<Rightarrow> string list" where
  "Split s sep = genSplit s sep (count_list s sep)"

text \<open>
  \<^verbatim>\<open>strings.SplitN(s, sep, n)\<close> for \<open>n \<ge> 0\<close>: nil for \<open>n = 0\<close>, else at most \<open>n\<close>
  parts (and at most \<^verbatim>\<open>len(s) + 1\<close>), the last one the unsplit remainder.
\<close>

definition SplitN :: "string \<Rightarrow> char \<Rightarrow> nat \<Rightarrow> string list" where
  "SplitN s sep n =
     (if n = 0 then []
      else genSplit s sep ((if n > length s + 1 then length s + 1 else n) - 1))"

text \<open>
  The digit loop of \<^verbatim>\<open>strconv.ParseUint(s, 10, 8)\<close>: a byte that is not a decimal digit
  is a syntax error, a value above \<^verbatim>\<open>maxVal = 255\<close> a range error. The accumulator
  never exceeds 255, so the 64-bit cutoff test of the library never fires.
\<close>

fun ParseUint_loop :: "nat \<Rightarrow> string \<Rightarrow> error + nat" where
  "ParseUint_loop n [] = Inr n"
| "ParseUint_loop n (c # cs) =
     (if 48 \<le> (of_char c :: nat) \<and> (of_char c :: nat) \<le> 57
      then (let n1 = n * 10 + ((of_char c :: nat) - 48)
            in if n1 > 255 then Inl ErrRange else ParseUint_loop n1 cs)
      else Inl ErrSyntax)"

definition ParseUint :: "string \<Rightarrow> error + nat" where
  "ParseUint s = (if s = [] then Inl ErrSyntax else ParseUint_loop 0 s)"

section \<open>The parsers\<close>

definition parseIntegral :: "string \<Rightarrow> uint8 \<Rightarrow> uint8 \<Rightarrow> error + uint8" where
  "parseIntegral s mn mx =
     (case ParseUint s of
        Inl err \<Rightarrow> Inl (CouldNotParseValue err)
      | Inr v \<Rightarrow>
          if (of_nat v :: uint8) < mn \<or> (of_nat v :: uint8) > mx
          then Inl (ValueMustBeInRange mn mx)
          else Inr (of_nat v))"

text \<open>
  The counting loop \<^verbatim>\<open>for i := first; i <= end; i++ { result = append(result, i) }\<close> of
  \<^verbatim>\<open>parseRange\<close>, and of the wildcard branch of \<^verbatim>\<open>parseTime\<close> with \<^verbatim>\<open>min\<close> and
  \<^verbatim>\<open>max\<close>. The counter is a \<^verbatim>\<open>uint8\<close>: \<open>i + 1\<close> wraps from 255 to 0. \<open>None\<close> is a
  loop that never ends.
\<close>

partial_function (option) range_loop :: "uint8 \<Rightarrow> uint8 \<Rightarrow> uint8 list \<Rightarrow> uint8 list option"
  where
  "range_loop i en result =
     (if i \<le> en then range_loop (i + 1) en (result @ [i]) else Some result)"

declare range_loop.simps [code]

definition parseRange :: "string list \<Rightarrow> uint8 \<Rightarrow> uint8 \<Rightarrow> (error + uint8 list) option" where
  "parseRange rnge mn mx =
     (if length rnge \<noteq> 2 then Some (Inl (ExpectedRange rnge))
      else case parseIntegral (rnge ! 0) mn mx of
        Inl err \<Rightarrow> Some (Inl (InvalidBeginOfRange (rnge ! 0) err))
      | Inr first \<Rightarrow>
          (case parseIntegral (rnge ! 1) mn mx of
             Inl err \<Rightarrow> Some (Inl (InvalidEndOfRange (rnge ! 1) err))
           | Inr en \<Rightarrow>
               if first \<ge> en then Some (Inl (InvalidRange first en))
               else map_option Inr (range_loop first en [])))"

text \<open>
  The loop of \<^verbatim>\<open>parseSteps\<close> over the tokens, with the map \<^verbatim>\<open>unique\<close> (a set of keys)
  and the slice \<^verbatim>\<open>result\<close>.
\<close>

fun parseSteps_loop ::
  "string list \<Rightarrow> uint8 \<Rightarrow> uint8 \<Rightarrow> uint8 set \<Rightarrow> uint8 list \<Rightarrow> error + uint8 list" where
  "parseSteps_loop [] mn mx unique result = Inr result"
| "parseSteps_loop (s # ss) mn mx unique result =
     (if s = [] then Inl ExpectedStep
      else case parseIntegral s mn mx of
        Inl err \<Rightarrow> Inl (InvalidStep s err)
      | Inr step \<Rightarrow>
          if step \<notin> unique
          then parseSteps_loop ss mn mx (insert step unique) (result @ [step])
          else parseSteps_loop ss mn mx unique result)"

definition parseSteps :: "string list \<Rightarrow> uint8 \<Rightarrow> uint8 \<Rightarrow> error + uint8 list" where
  "parseSteps steps mn mx = parseSteps_loop steps mn mx {} []"

text \<open>
  The loop \<^verbatim>\<open>for i := start + min; i < max; i += every { result = append(result, i) }\<close>
  of \<^verbatim>\<open>parseIntervals\<close>, on \<^verbatim>\<open>uint8\<close>.
\<close>

partial_function (option) intervals_loop ::
  "uint8 \<Rightarrow> uint8 \<Rightarrow> uint8 \<Rightarrow> uint8 list \<Rightarrow> uint8 list option" where
  "intervals_loop i mx every result =
     (if i < mx then intervals_loop (i + every) mx every (result @ [i]) else Some result)"

declare intervals_loop.simps [code]

text \<open>
  The first block of \<^verbatim>\<open>parseIntervals\<close>, which computes \<^verbatim>\<open>start\<close>: 0 for the
  wildcard, else the first token parsed within the bound.
\<close>

definition parseStart :: "string \<Rightarrow> uint8 \<Rightarrow> uint8 \<Rightarrow> error + uint8" where
  "parseStart s mn mx =
     (if s \<noteq> ''*''
      then (case parseIntegral s mn mx of
              Inl err \<Rightarrow> Inl (CouldNotParseStartingPoint err)
            | Inr s' \<Rightarrow> Inr s')
      else Inr 0)"

definition parseIntervals :: "string list \<Rightarrow> uint8 \<Rightarrow> uint8 \<Rightarrow> (error + uint8 list) option" where
  "parseIntervals intervals mn mx =
     (if length intervals \<noteq> 2 then Some (Inl MalformedIntervals)
      else case parseStart (intervals ! 0) mn mx of
        Inl err \<Rightarrow> Some (Inl err)
      | Inr start \<Rightarrow>
          (case parseIntegral (intervals ! 1) mn mx of
             Inl err \<Rightarrow> Some (Inl (CouldNotParseRepeatedInterval err))
           | Inr every \<Rightarrow>
               if every = 0 then Some (Inl RepeatedIntervalZero)
               else if (mx + 1) mod every \<noteq> 0
               then Some (Inl (InvalidRepeatedInterval every (mx + 1)))
               else map_option Inr (intervals_loop (start + mn) mx every [])))"

definition parseTime :: "string \<Rightarrow> uint8 \<Rightarrow> uint8 \<Rightarrow> (error + uint8 list) option" where
  "parseTime arg mn mx =
     (if arg = [] then Some (Inl ExpectedArg)
      else if arg = ''*'' then map_option Inr (range_loop mn mx [])
      else if length (Split arg CHR ''-'') > 1 then parseRange (Split arg CHR ''-'') mn mx
      else if length (Split arg CHR '','') > 1
      then Some (parseSteps (Split arg CHR '','') mn mx)
      else if length (Split arg CHR ''/'') > 1
      then parseIntervals (Split arg CHR ''/'') mn mx
      else case parseIntegral arg mn mx of
        Inl err \<Rightarrow> Some (Inl (CouldNotParseExactValue err))
      | Inr exact \<Rightarrow> Some (Inr [exact]))"

text \<open>
  \<^verbatim>\<open>ParseExpression\<close>: the index expressions \<^verbatim>\<open>args[1]\<close> to \<^verbatim>\<open>args[5]\<close> are checked
  against the length of the slice, as the Go runtime does; \<^verbatim>\<open>args[0]\<close> exists because
  \<^verbatim>\<open>SplitN\<close> with \<open>n = 6\<close> returns at least one part. On an error the function returns
  the value of \<^verbatim>\<open>e\<close> built so far together with the error.
\<close>

definition ParseExpression :: "string \<Rightarrow> outcome option" where
  "ParseExpression line =
     (let args = SplitN line CHR '' '' numExressionArgs; e0 = zero_Expression in
      if length args \<le> 0 then Some (Panic 0 (length args)) else
      case parseTime (args ! 0) minutesMin minutesMax of
        None \<Rightarrow> None
      | Some (Inl err) \<Rightarrow> Some (Return e0 (Some (InvalidMinutesArg err)))
      | Some (Inr v0) \<Rightarrow>
     (let e1 = e0\<lparr>Minutes := v0\<rparr> in
      if length args \<le> 1 then Some (Panic 1 (length args)) else
      case parseTime (args ! 1) hoursMin hoursMax of
        None \<Rightarrow> None
      | Some (Inl err) \<Rightarrow> Some (Return e1 (Some (InvalidHoursArg err)))
      | Some (Inr v1) \<Rightarrow>
     (let e2 = e1\<lparr>Hours := v1\<rparr> in
      if length args \<le> 2 then Some (Panic 2 (length args)) else
      case parseTime (args ! 2) daysInMonthMin daysInMonthMax of
        None \<Rightarrow> None
      | Some (Inl err) \<Rightarrow> Some (Return e2 (Some (InvalidMonthdaysArg err)))
      | Some (Inr v2) \<Rightarrow>
     (let e3 = e2\<lparr>MonthDays := v2\<rparr> in
      if length args \<le> 3 then Some (Panic 3 (length args)) else
      case parseTime (args ! 3) monthsMin monthsMax of
        None \<Rightarrow> None
      | Some (Inl err) \<Rightarrow> Some (Return e3 (Some (InvalidMonthArg err)))
      | Some (Inr v3) \<Rightarrow>
     (let e4 = e3\<lparr>Months := v3\<rparr> in
      if length args \<le> 4 then Some (Panic 4 (length args)) else
      case parseTime (args ! 4) weekdaysMin weekdaysMax of
        None \<Rightarrow> None
      | Some (Inl err) \<Rightarrow> Some (Return e4 (Some (InvalidWeekdaysArg err)))
      | Some (Inr v4) \<Rightarrow>
     (let e5 = e4\<lparr>WeekDays := v4\<rparr> in
      if length args \<le> 5 then Some (Panic 5 (length args))
      else if args ! 5 = [] then Some (Return e5 (Some ExpectedCommand))
      else Some (Return (e5\<lparr>Command := args ! 5\<rparr>) None)))))))"

section \<open>The specification's words\<close>

text \<open>
  The step list of the specification: duplicate values collapse to one occurrence, at
  the position of the first appearance, and the order of first appearances is kept.
  This definition follows the specification, not the code; the step list parser is
  compared with it.
\<close>

fun first_occurrences :: "'a list \<Rightarrow> 'a list" where
  "first_occurrences [] = []"
| "first_occurrences (x # xs) = x # first_occurrences (filter (\<lambda>y. y \<noteq> x) xs)"

section \<open>The loops\<close>

lemma unat_succ: "unat (i::uint8) < 255 \<Longrightarrow> unat (i + 1) = Suc (unat i)"
  by (simp add: unat_word_ariths)

lemma range_loop_returns:
  "unat en < 255 \<Longrightarrow>
   range_loop i en acc = Some (acc @ map of_nat [unat i ..< Suc (unat en)])"
proof (induction "Suc (unat en) - unat i" arbitrary: i acc)
  case 0
  then have "\<not> i \<le> en" by (simp add: word_le_nat_alt)
  with 0 show ?case by (subst range_loop.simps) simp
next
  case (Suc n)
  then have le: "i \<le> en" and ui: "unat i \<le> unat en"
    by (simp_all add: word_le_nat_alt)
  with Suc.prems have s: "unat (i + 1) = Suc (unat i)" by (simp add: unat_succ)
  from Suc.hyps(2) s have "n = Suc (unat en) - unat (i + 1)" by simp
  from Suc.hyps(1)[OF this Suc.prems, of "acc @ [i]"]
  have "range_loop (i + 1) en (acc @ [i]) =
          Some (acc @ i # map of_nat [Suc (unat i) ..< Suc (unat en)])"
    by (simp add: s del: upt_Suc)
  moreover from ui have "[unat i ..< Suc (unat en)] = unat i # [Suc (unat i) ..< Suc (unat en)]"
    by (simp add: upt_conv_Cons del: upt_Suc)
  ultimately show ?case using le
    by (subst range_loop.simps) (simp del: upt_Suc)
qed

lemma uint8_le_255: "(i::uint8) \<le> 255"
proof -
  have "i \<le> (- 1 :: uint8)" by simp
  moreover have "(- 1 :: uint8) = 255" by simp
  ultimately show ?thesis by simp
qed

lemma range_loop_Some_not_255:
  assumes "range_loop i en acc = Some r"
  shows "en \<noteq> 255"
proof (rule range_loop.raw_induct[where P = "\<lambda>i en acc r. en \<noteq> 255", OF _ assms])
  fix f :: "uint8 \<Rightarrow> uint8 \<Rightarrow> uint8 list \<Rightarrow> uint8 list option" and i en result r
  assume ih: "\<And>i en result r. f i en result = Some r \<Longrightarrow> en \<noteq> 255"
    and st: "(if i \<le> en then f (i + 1) en (result @ [i]) else Some result) = Some r"
  show "en \<noteq> 255"
  proof (cases "i \<le> en")
    case True
    with st ih show ?thesis by simp
  next
    case False
    with uint8_le_255[of i] show ?thesis by auto
  qed
qed

lemma range_loop_diverges: "range_loop i 255 acc = None"
  using range_loop_Some_not_255[of i 255 acc] by (cases "range_loop i 255 acc") auto

lemma intervals_loop_returns:
  assumes "every \<noteq> 0" and "unat mx + unat every \<le> 256"
  shows "\<exists>n. intervals_loop i mx every acc =
            Some (acc @ map (\<lambda>k. of_nat (unat i + k * unat every)) [0..<n]) \<and>
          (\<forall>k<n. unat i + k * unat every < unat mx) \<and>
          unat mx \<le> unat i + n * unat every"
proof (induction "unat mx - unat i" arbitrary: i acc rule: less_induct)
  case less
  show ?case
  proof (cases "i < mx")
    case False
    then have "intervals_loop i mx every acc = Some acc"
      by (subst intervals_loop.simps) simp
    moreover from False have "unat mx \<le> unat i" by (simp add: word_less_nat_alt)
    ultimately show ?thesis by (intro exI[of _ 0]) simp
  next
    case True
    then have lt: "unat i < unat mx" by (simp add: word_less_nat_alt)
    from assms(1) have e0: "0 < unat every" by (simp add: unat_gt_0)
    from lt assms(2) have s: "unat (i + every) = unat i + unat every"
      by (simp add: unat_word_ariths)
    with lt e0 have "unat mx - unat (i + every) < unat mx - unat i" by simp
    from less[OF this, of "acc @ [i]"] obtain n where
      n: "intervals_loop (i + every) mx every (acc @ [i]) =
            Some ((acc @ [i]) @ map (\<lambda>k. of_nat (unat (i + every) + k * unat every)) [0..<n])"
         "\<forall>k<n. unat (i + every) + k * unat every < unat mx"
         "unat mx \<le> unat (i + every) + n * unat every"
      by blast
    have step: "unat (i + every) + k * unat every = unat i + Suc k * unat every" for k
      by (simp add: s)
    have "map (\<lambda>k. of_nat (unat i + k * unat every) :: uint8) [0..<Suc n] =
          i # map (\<lambda>k. of_nat (unat (i + every) + k * unat every)) [0..<n]"
      unfolding step map_upt_Suc by simp
    with True n(1) have "intervals_loop i mx every acc =
            Some (acc @ map (\<lambda>k. of_nat (unat i + k * unat every)) [0..<Suc n])"
      by (subst intervals_loop.simps) (simp only: if_True append_assoc append_Cons append_Nil)
    moreover have "\<forall>k<Suc n. unat i + k * unat every < unat mx"
    proof (intro allI impI)
      fix k assume "k < Suc n"
      show "unat i + k * unat every < unat mx"
      proof (cases k)
        case 0 with lt show ?thesis by simp
      next
        case (Suc j)
        with \<open>k < Suc n\<close> n(2) step[of j] show ?thesis by auto
      qed
    qed
    moreover have "unat mx \<le> unat i + Suc n * unat every"
      using n(3) step[of n] by simp
    ultimately show ?thesis by blast
  qed
qed

lemma intervals_loop_steps:
  assumes "every \<noteq> 0"
    and "\<forall>k. unat i + k * unat every < unat mx \<longrightarrow> unat i + Suc k * unat every < 256"
  shows "\<exists>n. intervals_loop i mx every acc =
            Some (acc @ map (\<lambda>k. of_nat (unat i + k * unat every)) [0..<n]) \<and>
          (\<forall>k<n. unat i + k * unat every < unat mx) \<and>
          unat mx \<le> unat i + n * unat every"
  using assms(2)
proof (induction "unat mx - unat i" arbitrary: i acc rule: less_induct)
  case less
  show ?case
  proof (cases "i < mx")
    case False
    then have "intervals_loop i mx every acc = Some acc"
      by (subst intervals_loop.simps) simp
    moreover from False have "unat mx \<le> unat i" by (simp add: word_less_nat_alt)
    ultimately show ?thesis by (intro exI[of _ 0]) simp
  next
    case True
    then have lt: "unat i < unat mx" by (simp add: word_less_nat_alt)
    from assms(1) have e0: "0 < unat every" by (simp add: unat_gt_0)
    from lt less.prems have "unat i + unat every < 256" by (auto dest: spec[of _ 0])
    then have s: "unat (i + every) = unat i + unat every"
      by (simp add: unat_word_ariths)
    have step: "unat (i + every) + k * unat every = unat i + Suc k * unat every" for k
      by (simp add: s)
    have nw: "\<forall>k. unat (i + every) + k * unat every < unat mx \<longrightarrow>
                  unat (i + every) + Suc k * unat every < 256"
      unfolding step using less.prems by blast
    from s lt e0 have "unat mx - unat (i + every) < unat mx - unat i" by simp
    from less.hyps[OF this nw, of "acc @ [i]"] obtain n where
      n: "intervals_loop (i + every) mx every (acc @ [i]) =
            Some ((acc @ [i]) @ map (\<lambda>k. of_nat (unat (i + every) + k * unat every)) [0..<n])"
         "\<forall>k<n. unat (i + every) + k * unat every < unat mx"
         "unat mx \<le> unat (i + every) + n * unat every"
      by blast
    have "map (\<lambda>k. of_nat (unat i + k * unat every) :: uint8) [0..<Suc n] =
          i # map (\<lambda>k. of_nat (unat (i + every) + k * unat every)) [0..<n]"
      unfolding step map_upt_Suc by simp
    with True n(1) have "intervals_loop i mx every acc =
            Some (acc @ map (\<lambda>k. of_nat (unat i + k * unat every)) [0..<Suc n])"
      by (subst intervals_loop.simps) (simp only: if_True append_assoc append_Cons append_Nil)
    moreover have "\<forall>k<Suc n. unat i + k * unat every < unat mx"
    proof (intro allI impI)
      fix k assume "k < Suc n"
      show "unat i + k * unat every < unat mx"
      proof (cases k)
        case 0 with lt show ?thesis by simp
      next
        case (Suc j)
        with \<open>k < Suc n\<close> n(2) step[of j] show ?thesis by auto
      qed
    qed
    moreover have "unat mx \<le> unat i + Suc n * unat every"
      using n(3) step[of n] by simp
    ultimately show ?thesis by blast
  qed
qed

section \<open>Splitting\<close>

lemma Index_None: "Index s c = None \<longleftrightarrow> c \<notin> set s"
  by (induction s) auto

lemma Index_append: "c \<notin> set a \<Longrightarrow> Index (a @ c # b) c = Some (length a)"
  by (induction a) auto

lemma Index_Some:
  "Index s c = Some m \<Longrightarrow> s = take m s @ c # drop (Suc m) s \<and> c \<notin> set (take m s)"
proof (induction s arbitrary: m)
  case Nil
  then show ?case by simp
next
  case (Cons x xs)
  show ?case
  proof (cases "x = c")
    case True
    with Cons.prems show ?thesis by simp
  next
    case False
    with Cons.prems obtain j where j: "Index xs c = Some j" "m = Suc j" by auto
    from Cons.IH[OF j(1)] j(2) False show ?thesis by auto
  qed
qed

lemma genSplit_append:
  "c \<notin> set a \<Longrightarrow> genSplit (a @ c # b) c (Suc k) = a # genSplit b c k"
  by (simp add: Index_append)

lemma genSplit_no_sep: "c \<notin> set s \<Longrightarrow> genSplit s c k = [s]"
  by (cases k) (simp_all add: Index_None[THEN iffD2])

lemma length_genSplit: "length (genSplit s c k) \<le> Suc k"
proof (induction k arbitrary: s)
  case 0
  show ?case by simp
next
  case (Suc k)
  show ?case using Suc[of "drop (Suc (the (Index s c))) s"]
    by (cases "Index s c") auto
qed

lemma genSplit_uncons:
  assumes "1 < length (genSplit s c (Suc k))"
  shows "\<exists>a b. s = a @ c # b \<and> c \<notin> set a \<and> genSplit s c (Suc k) = a # genSplit b c k"
proof (cases "Index s c")
  case None
  with assms show ?thesis by simp
next
  case (Some m)
  from Index_Some[OF Some] Some show ?thesis
    by (intro exI[of _ "take m s"] exI[of _ "drop (Suc m) s"]) simp
qed

lemma length_Split: "1 < length (Split s c) \<longleftrightarrow> c \<in> set s"
proof
  assume "1 < length (Split s c)"
  then show "c \<in> set s"
    by (rule contrapos_pp) (simp add: Split_def genSplit_no_sep)
next
  assume c: "c \<in> set s"
  then have "count_list s c \<noteq> 0" by (simp add: count_list_0_iff)
  then obtain k where k: "count_list s c = Suc k" by (cases "count_list s c") auto
  from c obtain m where "Index s c = Some m" by (cases "Index s c") (auto simp: Index_None)
  with k have "Split s c = take m s # genSplit (drop (Suc m) s) c k" by (simp add: Split_def)
  moreover have "genSplit (drop (Suc m) s) c k \<noteq> []" by (cases k) (auto split: option.splits)
  ultimately show "1 < length (Split s c)" by (cases "genSplit (drop (Suc m) s) c k") auto
qed

section \<open>The integral field parser\<close>

lemma ParseUint_loop_bound: "n \<le> 255 \<Longrightarrow> ParseUint_loop n s = Inr v \<Longrightarrow> v \<le> 255"
proof (induction s arbitrary: n)
  case Nil
  then show ?case by simp
next
  case (Cons c cs)
  let ?n1 = "n * 10 + ((of_char c :: nat) - 48)"
  from Cons.prems(2) have "?n1 \<le> 255" and "ParseUint_loop ?n1 cs = Inr v"
    by (auto simp: Let_def split: if_splits)
  then show ?case by (rule Cons.IH)
qed

lemma ParseUint_bound: "ParseUint s = Inr v \<Longrightarrow> v \<le> 255"
  using ParseUint_loop_bound[of 0 s v] by (simp add: ParseUint_def split: if_splits)

lemma unat_of_nat_uint8: "v \<le> 255 \<Longrightarrow> unat (of_nat v :: uint8) = v"
  by (simp add: unat_of_nat)

lemma parseIntegral_of_ParseUint:
  assumes "ParseUint s = Inr v"
  shows "parseIntegral s mn mx =
           (if v < unat mn \<or> unat mx < v then Inl (ValueMustBeInRange mn mx)
            else Inr (of_nat v))"
  using assms unat_of_nat_uint8[OF ParseUint_bound[OF assms]]
  by (simp add: parseIntegral_def word_less_nat_alt)

lemma parseIntegral_bounds: "parseIntegral s mn mx = Inr w \<Longrightarrow> mn \<le> w \<and> w \<le> mx"
  by (auto simp: parseIntegral_def split: sum.splits if_splits)

section \<open>The range expander\<close>

lemma parseRange_arity:
  "length toks \<noteq> 2 \<Longrightarrow> parseRange toks mn mx = Some (Inl (ExpectedRange toks))"
  by (simp add: parseRange_def)

lemma parseRange_ascending:
  assumes "parseIntegral ta mn mx = Inr a" and "parseIntegral tb mn mx = Inr b"
    and "a < b" and "b \<noteq> 255"
  shows "parseRange [ta, tb] mn mx = Some (Inr (map of_nat [unat a ..< Suc (unat b)]))"
proof -
  from \<open>b \<noteq> 255\<close> have "unat b \<noteq> 255"
    by (simp add: word_unat_eq_iff)
  moreover have "unat b \<le> 255" using uint8_le_255[of b] by (simp add: word_le_nat_alt)
  ultimately have "unat b < 255" by simp
  from range_loop_returns[OF this, of a "[]"] assms show ?thesis
    by (simp add: parseRange_def)
qed

text \<open>
  Claim C5, as the code has it. Two tokens that \<^verbatim>\<open>strconv.ParseUint\<close> reads as \<open>a\<close>
  and \<open>b\<close>: when \<open>min \<le> a < b \<le> max\<close> (and \<open>b < 255\<close>, within the 8-bit counting of the
  loop) the range expander returns the inclusive ascending sequence \<open>a, a + 1, \<dots>, b\<close>.
  When \<open>b \<le> a\<close> it always fails (a range of a single point cannot be written), but the
  end points are checked against the bound first, the begin before the end: the error is
  the inverted-range error only when both lie within the bound, and otherwise the
  out-of-bound error of the first end point outside the bound, wrapped with the name of
  that end point. Any list of tokens that has not exactly two elements fails with the
  malformed-range error.
\<close>

theorem parseRange_spec:
  assumes "ParseUint ta = Inr a" and "ParseUint tb = Inr b"
  shows "(unat mn \<le> a \<and> a < b \<and> b \<le> unat mx \<and> b < 255 \<longrightarrow>
            parseRange [ta, tb] mn mx = Some (Inr (map of_nat [a ..< Suc b]))) \<and>
         (unat mn \<le> b \<and> b \<le> a \<and> a \<le> unat mx \<longrightarrow>
            parseRange [ta, tb] mn mx = Some (Inl (InvalidRange (of_nat a) (of_nat b)))) \<and>
         (a < unat mn \<or> unat mx < a \<longrightarrow>
            parseRange [ta, tb] mn mx =
              Some (Inl (InvalidBeginOfRange ta (ValueMustBeInRange mn mx)))) \<and>
         (unat mn \<le> a \<and> a \<le> unat mx \<and> (b < unat mn \<or> unat mx < b) \<longrightarrow>
            parseRange [ta, tb] mn mx =
              Some (Inl (InvalidEndOfRange tb (ValueMustBeInRange mn mx)))) \<and>
         (b \<le> a \<longrightarrow> (\<exists>e. parseRange [ta, tb] mn mx = Some (Inl e))) \<and>
         (\<forall>toks. length toks \<noteq> 2 \<longrightarrow>
            parseRange toks mn mx = Some (Inl (ExpectedRange toks)))"
proof -
  note pa = parseIntegral_of_ParseUint[OF assms(1), of mn mx]
  note pb = parseIntegral_of_ParseUint[OF assms(2), of mn mx]
  note ua = unat_of_nat_uint8[OF ParseUint_bound[OF assms(1)]]
  note ub = unat_of_nat_uint8[OF ParseUint_bound[OF assms(2)]]
  have 1: "unat mn \<le> a \<and> a < b \<and> b \<le> unat mx \<and> b < 255 \<longrightarrow>
            parseRange [ta, tb] mn mx = Some (Inr (map of_nat [a ..< Suc b]))"
  proof (intro impI, elim conjE)
    assume h: "unat mn \<le> a" "a < b" "b \<le> unat mx" "b < 255"
    from h have a: "parseIntegral ta mn mx = Inr (of_nat a)"
      and b: "parseIntegral tb mn mx = Inr (of_nat b)"
      by (simp_all add: pa pb)
    from h ua ub have "(of_nat a :: uint8) < of_nat b" by (simp add: word_less_nat_alt)
    moreover from h ub have "(of_nat b :: uint8) \<noteq> 255" by auto
    ultimately show "parseRange [ta, tb] mn mx = Some (Inr (map of_nat [a ..< Suc b]))"
      using parseRange_ascending[OF a b] ua ub by simp
  qed
  have 2: "unat mn \<le> b \<and> b \<le> a \<and> a \<le> unat mx \<longrightarrow>
            parseRange [ta, tb] mn mx = Some (Inl (InvalidRange (of_nat a) (of_nat b)))"
  proof (intro impI, elim conjE)
    assume h: "unat mn \<le> b" "b \<le> a" "a \<le> unat mx"
    from h ua ub have "(of_nat b :: uint8) \<le> of_nat a" by (simp add: word_le_nat_alt)
    with h show "parseRange [ta, tb] mn mx = Some (Inl (InvalidRange (of_nat a) (of_nat b)))"
      by (simp add: parseRange_def pa pb)
  qed
  have 3: "a < unat mn \<or> unat mx < a \<longrightarrow>
            parseRange [ta, tb] mn mx =
              Some (Inl (InvalidBeginOfRange ta (ValueMustBeInRange mn mx)))"
    by (auto simp: parseRange_def pa)
  have 4: "unat mn \<le> a \<and> a \<le> unat mx \<and> (b < unat mn \<or> unat mx < b) \<longrightarrow>
            parseRange [ta, tb] mn mx =
              Some (Inl (InvalidEndOfRange tb (ValueMustBeInRange mn mx)))"
    by (auto simp: parseRange_def pa pb)
  have 5: "b \<le> a \<longrightarrow> (\<exists>e. parseRange [ta, tb] mn mx = Some (Inl e))"
  proof
    assume h: "b \<le> a"
    from h ua ub have "(of_nat b :: uint8) \<le> of_nat a" by (simp add: word_le_nat_alt)
    then show "\<exists>e. parseRange [ta, tb] mn mx = Some (Inl e)"
      by (simp add: parseRange_def pa pb)
  qed
  have 6: "\<forall>toks. length toks \<noteq> 2 \<longrightarrow>
            parseRange toks mn mx = Some (Inl (ExpectedRange toks))"
    by (simp add: parseRange_arity)
  show ?thesis by (rule conjI[OF 1 conjI[OF 2 conjI[OF 3 conjI[OF 4 conjI[OF 5 6]]]]])
qed

text \<open>
  The theorem at the tokens of the test suite, at an inverted and at a one-point range, at
  ranges with the begin or the end out of the bound, and at a list of three tokens.
\<close>

theorem parseRange_spec_witness:
  "parseRange [''1'', ''10''] 0 59 = Some (Inr [1, 2, 3, 4, 5, 6, 7, 8, 9, 10]) \<and>
   parseRange [''10'', ''1''] 0 59 = Some (Inl (InvalidRange 10 1)) \<and>
   parseRange [''7'', ''7''] 0 59 = Some (Inl (InvalidRange 7 7)) \<and>
   parseRange [''70'', ''7''] 0 59 =
     Some (Inl (InvalidBeginOfRange ''70'' (ValueMustBeInRange 0 59))) \<and>
   parseRange [''7'', ''70''] 0 59 =
     Some (Inl (InvalidEndOfRange ''70'' (ValueMustBeInRange 0 59))) \<and>
   (\<exists>e. parseRange [''70'', ''7''] 0 59 = Some (Inl e)) \<and>
   parseRange [''1'', ''2'', ''3''] 0 59 = Some (Inl (ExpectedRange [''1'', ''2'', ''3'']))"
proof -
  have p1: "ParseUint ''1'' = Inr 1" by code_simp
  have p10: "ParseUint ''10'' = Inr 10" by code_simp
  have p7: "ParseUint ''7'' = Inr 7" by code_simp
  have p70: "ParseUint ''70'' = Inr 70" by code_simp
  have l: "map of_nat [1 ..< Suc 10] = [1, 2, 3, 4, 5, 6, 7, 8, 9, 10 :: uint8]" by code_simp
  from parseRange_spec[OF p1 p10, of 0 59] l
  have 1: "parseRange [''1'', ''10''] 0 59 = Some (Inr [1, 2, 3, 4, 5, 6, 7, 8, 9, 10])"
    by simp
  from parseRange_spec[OF p10 p1, of 0 59]
  have 2: "parseRange [''10'', ''1''] 0 59 = Some (Inl (InvalidRange 10 1))" by simp
  from parseRange_spec[OF p7 p7, of 0 59]
  have 3: "parseRange [''7'', ''7''] 0 59 = Some (Inl (InvalidRange 7 7))" by simp
  from parseRange_spec[OF p70 p7, of 0 59]
  have 4: "parseRange [''70'', ''7''] 0 59 =
     Some (Inl (InvalidBeginOfRange ''70'' (ValueMustBeInRange 0 59)))"
    and 6: "\<exists>e. parseRange [''70'', ''7''] 0 59 = Some (Inl e)" by simp_all
  from parseRange_spec[OF p7 p70, of 0 59]
  have 5: "parseRange [''7'', ''70''] 0 59 =
     Some (Inl (InvalidEndOfRange ''70'' (ValueMustBeInRange 0 59)))" by simp
  from parseRange_spec[OF p1 p1, of 0 59]
  have 7: "parseRange [''1'', ''2'', ''3''] 0 59 = Some (Inl (ExpectedRange [''1'', ''2'', ''3'']))"
    by simp
  from 1 2 3 4 5 6 7 show ?thesis by (intro conjI)
qed

text \<open>
  Claim C5 as it is written names the inverted-range error for every \<open>a \<ge> b\<close>. Over the
  minutes \<open>[0, 59]\<close> the tokens \<^verbatim>\<open>70\<close> and \<^verbatim>\<open>5\<close> parse to \<open>70 \<ge> 5\<close>, and the call fails
  at the begin of the range, with the out-of-bound error, before the two end points are
  compared.
\<close>

theorem parseRange_out_of_bound_counterexample:
  "ParseUint ''70'' = Inr 70 \<and> ParseUint ''5'' = Inr 5 \<and> (5::nat) \<le> 70 \<and>
   parseRange [''70'', ''5''] minutesMin minutesMax =
     Some (Inl (InvalidBeginOfRange ''70'' (ValueMustBeInRange 0 59))) \<and>
   parseRange [''70'', ''5''] minutesMin minutesMax \<noteq> Some (Inl (InvalidRange 70 5)) \<and>
   parseTime ''70-5'' minutesMin minutesMax =
     Some (Inl (InvalidBeginOfRange ''70'' (ValueMustBeInRange 0 59)))"
proof -
  have "ParseUint ''70'' = Inr 70 \<and> ParseUint ''5'' = Inr 5 \<and> (5::nat) \<le> 70 \<and>
   parseRange [''70'', ''5''] minutesMin minutesMax =
     Some (Inl (InvalidBeginOfRange ''70'' (ValueMustBeInRange 0 59))) \<and>
   parseTime ''70-5'' minutesMin minutesMax =
     Some (Inl (InvalidBeginOfRange ''70'' (ValueMustBeInRange 0 59)))"
    by code_simp
  then show ?thesis by simp
qed

section \<open>The interval expander\<close>

lemma unat_uint8_le: "unat (w::uint8) \<le> 255"
  using uint8_le_255[of w] by (simp add: word_le_nat_alt)

lemma word_mod_check:
  fixes mx every :: uint8
  assumes "unat mx < 255"
  shows "(mx + 1) mod every = 0 \<longleftrightarrow> (unat mx + 1) mod unat every = 0"
proof -
  have "unat ((mx + 1) mod every) = Suc (unat mx) mod unat every"
    by (simp add: unat_mod unat_succ[OF assms])
  then show ?thesis by (simp add: word_unat_eq_iff[of _ 0])
qed

lemma word_mod_check_255:
  fixes mx every :: uint8
  assumes "unat mx = 255"
  shows "(mx + 1) mod every = 0"
proof -
  from assms have "unat (mx + 1) = 0" by (simp add: unat_word_ariths)
  then have "mx + 1 = 0" by (simp add: word_unat_eq_iff[of _ 0])
  then show ?thesis by simp
qed

lemma parseIntervals_loop:
  assumes "parseStart s mn mx = Inr start" and "parseIntegral t mn mx = Inr every"
    and "every \<noteq> 0" and "(mx + 1) mod every = 0"
  shows "parseIntervals [s, t] mn mx = map_option Inr (intervals_loop (start + mn) mx every [])"
  using assms by (simp add: parseIntervals_def)

lemma parseIntervals_no_wrap:
  assumes st: "parseStart s mn mx = Inr start"
    and ev: "parseIntegral t mn mx = Inr every" "every \<noteq> 0"
      "(unat mx + 1) mod unat every = 0"
    and nw: "unat start + unat mn < 256" "unat mx + unat every \<le> 256"
  shows "\<exists>n. parseIntervals [s, t] mn mx =
              Some (Inr (map (\<lambda>k. of_nat (unat start + unat mn + k * unat every)) [0..<n])) \<and>
            (\<forall>k<n. unat start + unat mn + k * unat every < unat mx) \<and>
            unat mx \<le> unat start + unat mn + n * unat every"
proof -
  have chk: "(mx + 1) mod every = 0"
  proof (cases "unat mx < 255")
    case True
    with ev(3) show ?thesis by (simp add: word_mod_check)
  next
    case False
    with unat_uint8_le[of mx] have "unat mx = 255" by simp
    then show ?thesis by (rule word_mod_check_255)
  qed
  from nw(1) have s0: "unat (start + mn) = unat start + unat mn"
    by (simp add: unat_word_ariths)
  from intervals_loop_returns[OF ev(2) nw(2), of "start + mn" "[]"]
  show ?thesis
    unfolding parseIntervals_loop[OF st ev(1) ev(2) chk] s0 by auto
qed

lemma parseIntervals_steps:
  assumes st: "parseStart s mn mx = Inr start"
    and ev: "parseIntegral t mn mx = Inr every" "every \<noteq> 0"
      "(unat mx + 1) mod unat every = 0"
    and nw: "unat start + unat mn < 256"
      "\<forall>k. unat start + unat mn + k * unat every < unat mx \<longrightarrow>
           unat start + unat mn + Suc k * unat every < 256"
  shows "\<exists>n. parseIntervals [s, t] mn mx =
              Some (Inr (map (\<lambda>k. of_nat (unat start + unat mn + k * unat every)) [0..<n])) \<and>
            (\<forall>k<n. unat start + unat mn + k * unat every < unat mx) \<and>
            unat mx \<le> unat start + unat mn + n * unat every"
proof -
  have chk: "(mx + 1) mod every = 0"
  proof (cases "unat mx < 255")
    case True
    with ev(3) show ?thesis by (simp add: word_mod_check)
  next
    case False
    with unat_uint8_le[of mx] have "unat mx = 255" by simp
    then show ?thesis by (rule word_mod_check_255)
  qed
  from nw(1) have s0: "unat (start + mn) = unat start + unat mn"
    by (simp add: unat_word_ariths)
  from nw(2) have nw': "\<forall>k. unat (start + mn) + k * unat every < unat mx \<longrightarrow>
                          unat (start + mn) + Suc k * unat every < 256"
    unfolding s0 .
  from intervals_loop_steps[OF ev(2) nw', of "[]"]
  show ?thesis
    unfolding parseIntervals_loop[OF st ev(1) ev(2) chk] s0 by auto
qed

text \<open>
  Claim C2. An interval token whose starting point is the wildcard (counted as 0) or
  parses within the bound, and whose step \<open>every\<close> parses within the bound, is positive and
  divides \<open>max + 1\<close>: the interval expander returns exactly the arithmetic progression
  \<open>start + min\<close>, \<open>start + min + every\<close>, \<open>\<dots>\<close> of all terms strictly below \<open>max\<close>: each of
  the \<open>n\<close> terms returned is below \<open>max\<close>, and the next term is not. A term equal to \<open>max\<close>
  is never included. The last two premises say that the terms are 8-bit numbers, as the
  code has them: \<open>start + min\<close> is one, and so is the successor of every term below
  \<open>max\<close>. They hold at every bound with \<open>max \<le> 127\<close>, so at the five bounds of
  \<^verbatim>\<open>ParseExpression\<close>.
\<close>

theorem parseIntervals_progression:
  assumes start: "(s = ''*'' \<and> start = 0) \<or> parseIntegral s mn mx = Inr start"
    and every: "parseIntegral t mn mx = Inr every" "every \<noteq> 0"
      "(unat mx + 1) mod unat every = 0"
    and eight_bit: "unat start + unat mn < 256"
      "\<forall>k. unat start + unat mn + k * unat every < unat mx \<longrightarrow>
           unat start + unat mn + Suc k * unat every < 256"
  shows "\<exists>n. parseIntervals [s, t] mn mx =
              Some (Inr (map (\<lambda>k. of_nat (unat start + unat mn + k * unat every)) [0..<n])) \<and>
            (\<forall>k<n. unat start + unat mn + k * unat every < unat mx) \<and>
            unat mx \<le> unat start + unat mn + n * unat every"
proof -
  have "parseIntegral ''*'' mn mx \<noteq> Inr start"
    by (simp add: parseIntegral_def ParseUint_def)
  with start have "parseStart s mn mx = Inr start"
    by (auto simp: parseStart_def)
  from parseIntervals_steps[OF this every eight_bit] show ?thesis .
qed

text \<open>
  The theorem at \<^verbatim>\<open>*/1\<close> over \<open>[0, 3]\<close>, which yields \<open>[0, 1, 2]\<close> and not
  \<open>[0, 1, 2, 3]\<close>, at \<^verbatim>\<open>1/15\<close> over the minutes, at \<^verbatim>\<open>2/4\<close> over the days of the month,
  where \<open>min = 1\<close>, and at \<^verbatim>\<open>*/67\<close> over \<open>[0, 200]\<close>.
\<close>

theorem parseIntervals_progression_witness:
  "parseIntervals [''*'', ''1''] 0 3 = Some (Inr [0, 1, 2]) \<and>
   (\<exists>n. parseIntervals [''*'', ''1''] 0 3 =
          Some (Inr (map (\<lambda>k. of_nat (unat (0::uint8) + unat (0::uint8) + k * unat (1::uint8)))
                  [0..<n])) \<and>
        (\<forall>k<n. unat (0::uint8) + unat (0::uint8) + k * unat (1::uint8) < unat (3::uint8)) \<and>
        unat (3::uint8) \<le> unat (0::uint8) + unat (0::uint8) + n * unat (1::uint8)) \<and>
   parseIntervals [''1'', ''15''] 0 59 = Some (Inr [1, 16, 31, 46]) \<and>
   (\<exists>n. parseIntervals [''1'', ''15''] 0 59 =
          Some (Inr (map (\<lambda>k. of_nat (unat (1::uint8) + unat (0::uint8) + k * unat (15::uint8)))
                  [0..<n])) \<and>
        (\<forall>k<n. unat (1::uint8) + unat (0::uint8) + k * unat (15::uint8) < unat (59::uint8)) \<and>
        unat (59::uint8) \<le> unat (1::uint8) + unat (0::uint8) + n * unat (15::uint8)) \<and>
   parseIntervals [''2'', ''4''] 1 31 = Some (Inr [3, 7, 11, 15, 19, 23, 27]) \<and>
   (\<exists>n. parseIntervals [''2'', ''4''] 1 31 =
          Some (Inr (map (\<lambda>k. of_nat (unat (2::uint8) + unat (1::uint8) + k * unat (4::uint8)))
                  [0..<n])) \<and>
        (\<forall>k<n. unat (2::uint8) + unat (1::uint8) + k * unat (4::uint8) < unat (31::uint8)) \<and>
        unat (31::uint8) \<le> unat (2::uint8) + unat (1::uint8) + n * unat (4::uint8)) \<and>
   parseIntervals [''*'', ''67''] 0 200 = Some (Inr [0, 67, 134]) \<and>
   (\<exists>n. parseIntervals [''*'', ''67''] 0 200 =
          Some (Inr (map (\<lambda>k. of_nat (unat (0::uint8) + unat (0::uint8) + k * unat (67::uint8)))
                  [0..<n])) \<and>
        (\<forall>k<n. unat (0::uint8) + unat (0::uint8) + k * unat (67::uint8) < unat (200::uint8)) \<and>
        unat (200::uint8) \<le> unat (0::uint8) + unat (0::uint8) + n * unat (67::uint8))"
proof -
  have e1: "parseIntegral ''1'' 0 3 = Inr 1" by code_simp
  have s1: "parseIntegral ''1'' 0 59 = Inr 1" by code_simp
  have e15: "parseIntegral ''15'' 0 59 = Inr 15" by code_simp
  have s2: "parseIntegral ''2'' 1 31 = Inr 2" by code_simp
  have e4: "parseIntegral ''4'' 1 31 = Inr 4" by code_simp
  have e67: "parseIntegral ''67'' 0 200 = Inr 67" by code_simp
  have v1: "parseIntervals [''*'', ''1''] 0 3 = Some (Inr [0, 1, 2])" by code_simp
  have v2: "parseIntervals [''1'', ''15''] 0 59 = Some (Inr [1, 16, 31, 46])" by code_simp
  have v3: "parseIntervals [''2'', ''4''] 1 31 = Some (Inr [3, 7, 11, 15, 19, 23, 27])"
    by code_simp
  have v4: "parseIntervals [''*'', ''67''] 0 200 = Some (Inr [0, 67, 134])" by code_simp
  have a: "(''*'' = ''*'' \<and> (0::uint8) = 0) \<or> parseIntegral ''*'' 0 3 = Inr 0" by simp
  have b: "(''1'' = ''*'' \<and> (1::uint8) = 0) \<or> parseIntegral ''1'' 0 59 = Inr 1"
    using s1 by simp
  have c: "(''2'' = ''*'' \<and> (2::uint8) = 0) \<or> parseIntegral ''2'' 1 31 = Inr 2"
    using s2 by simp
  have d: "(''*'' = ''*'' \<and> (0::uint8) = 0) \<or> parseIntegral ''*'' 0 200 = Inr 0" by simp
  have na: "\<forall>k. unat (0::uint8) + unat (0::uint8) + k * unat (1::uint8) < unat (3::uint8) \<longrightarrow>
    unat (0::uint8) + unat (0::uint8) + Suc k * unat (1::uint8) < 256" by simp
  have nb: "\<forall>k. unat (1::uint8) + unat (0::uint8) + k * unat (15::uint8) < unat (59::uint8) \<longrightarrow>
    unat (1::uint8) + unat (0::uint8) + Suc k * unat (15::uint8) < 256" by simp
  have nc: "\<forall>k. unat (2::uint8) + unat (1::uint8) + k * unat (4::uint8) < unat (31::uint8) \<longrightarrow>
    unat (2::uint8) + unat (1::uint8) + Suc k * unat (4::uint8) < 256" by simp
  have nd: "\<forall>k. unat (0::uint8) + unat (0::uint8) + k * unat (67::uint8) < unat (200::uint8) \<longrightarrow>
    unat (0::uint8) + unat (0::uint8) + Suc k * unat (67::uint8) < 256"
  proof (intro allI impI)
    fix k :: nat
    assume "unat (0::uint8) + unat (0::uint8) + k * unat (67::uint8) < unat (200::uint8)"
    then have "k * 67 < 200" by simp
    then have "k \<le> 2" by arith
    then have "Suc k * 67 \<le> 3 * 67" by (intro mult_le_mono1) simp
    then show "unat (0::uint8) + unat (0::uint8) + Suc k * unat (67::uint8) < 256" by simp
  qed
  have 1: "\<exists>n. parseIntervals [''*'', ''1''] 0 3 =
          Some (Inr (map (\<lambda>k. of_nat (unat (0::uint8) + unat (0::uint8) + k * unat (1::uint8)))
                  [0..<n])) \<and>
        (\<forall>k<n. unat (0::uint8) + unat (0::uint8) + k * unat (1::uint8) < unat (3::uint8)) \<and>
        unat (3::uint8) \<le> unat (0::uint8) + unat (0::uint8) + n * unat (1::uint8)"
    by (rule parseIntervals_progression[OF a e1 _ _ _ na]) simp_all
  have 2: "\<exists>n. parseIntervals [''1'', ''15''] 0 59 =
          Some (Inr (map (\<lambda>k. of_nat (unat (1::uint8) + unat (0::uint8) + k * unat (15::uint8)))
                  [0..<n])) \<and>
        (\<forall>k<n. unat (1::uint8) + unat (0::uint8) + k * unat (15::uint8) < unat (59::uint8)) \<and>
        unat (59::uint8) \<le> unat (1::uint8) + unat (0::uint8) + n * unat (15::uint8)"
    by (rule parseIntervals_progression[OF b e15 _ _ _ nb]) simp_all
  have 3: "\<exists>n. parseIntervals [''2'', ''4''] 1 31 =
          Some (Inr (map (\<lambda>k. of_nat (unat (2::uint8) + unat (1::uint8) + k * unat (4::uint8)))
                  [0..<n])) \<and>
        (\<forall>k<n. unat (2::uint8) + unat (1::uint8) + k * unat (4::uint8) < unat (31::uint8)) \<and>
        unat (31::uint8) \<le> unat (2::uint8) + unat (1::uint8) + n * unat (4::uint8)"
    by (rule parseIntervals_progression[OF c e4 _ _ _ nc]) simp_all
  have 4: "\<exists>n. parseIntervals [''*'', ''67''] 0 200 =
          Some (Inr (map (\<lambda>k. of_nat (unat (0::uint8) + unat (0::uint8) + k * unat (67::uint8)))
                  [0..<n])) \<and>
        (\<forall>k<n. unat (0::uint8) + unat (0::uint8) + k * unat (67::uint8) < unat (200::uint8)) \<and>
        unat (200::uint8) \<le> unat (0::uint8) + unat (0::uint8) + n * unat (67::uint8)"
    by (rule parseIntervals_progression[OF d e67 _ _ _ nd]) simp_all
  from v1 1 v2 2 v3 3 v4 4 show ?thesis by (intro conjI)
qed

text \<open>
  Claim C3, as the code has it, for a token \<^verbatim>\<open>*/n\<close> whose \<open>n\<close> is a number. The step is
  first checked against the bound of the field. A step within the bound that is positive
  and divides \<open>max + 1\<close> yields \<open>min\<close>, \<open>min + n\<close>, \<open>\<dots>\<close>, every term strictly below
  \<open>max\<close> (with \<open>max + n \<le> 256\<close>, so that the counter does not wrap); a positive step within
  the bound that does not divide \<open>max + 1\<close> is rejected with the indivisible-interval
  error (for \<open>max < 255\<close>); the step 0, when it lies within the bound, is rejected with the
  zero-interval error; and a step outside the bound is rejected with the out-of-bound
  error of the integral field parser, whatever it divides: so is \<open>n = max + 1\<close>, and so
  is \<open>n = 0\<close> at a bound with \<open>min > 0\<close>.
\<close>

theorem parseIntervals_wildcard:
  assumes "ParseUint t = Inr n"
  shows "(unat mn \<le> n \<and> n \<le> unat mx \<and> 0 < n \<and> (unat mx + 1) mod n = 0 \<and>
            unat mx + n \<le> 256 \<longrightarrow>
          (\<exists>len. parseIntervals [''*'', t] mn mx =
                    Some (Inr (map (\<lambda>k. of_nat (unat mn + k * n)) [0..<len])) \<and>
                  (\<forall>k<len. unat mn + k * n < unat mx) \<and>
                  unat mx \<le> unat mn + len * n)) \<and>
         (unat mn \<le> n \<and> n \<le> unat mx \<and> 0 < n \<and> (unat mx + 1) mod n \<noteq> 0 \<and>
            unat mx < 255 \<longrightarrow>
          parseIntervals [''*'', t] mn mx =
            Some (Inl (InvalidRepeatedInterval (of_nat n) (mx + 1)))) \<and>
         (unat mn \<le> n \<and> n \<le> unat mx \<and> n = 0 \<longrightarrow>
          parseIntervals [''*'', t] mn mx = Some (Inl RepeatedIntervalZero)) \<and>
         (n < unat mn \<or> unat mx < n \<longrightarrow>
          parseIntervals [''*'', t] mn mx =
            Some (Inl (CouldNotParseRepeatedInterval (ValueMustBeInRange mn mx))))"
proof -
  note pn = parseIntegral_of_ParseUint[OF assms, of mn mx]
  note un = unat_of_nat_uint8[OF ParseUint_bound[OF assms]]
  have st: "parseStart ''*'' mn mx = Inr 0" by (simp add: parseStart_def)
  have 1: "unat mn \<le> n \<and> n \<le> unat mx \<and> 0 < n \<and> (unat mx + 1) mod n = 0 \<and>
             unat mx + n \<le> 256 \<longrightarrow>
           (\<exists>len. parseIntervals [''*'', t] mn mx =
                    Some (Inr (map (\<lambda>k. of_nat (unat mn + k * n)) [0..<len])) \<and>
                  (\<forall>k<len. unat mn + k * n < unat mx) \<and>
                  unat mx \<le> unat mn + len * n)"
  proof (intro impI, elim conjE)
    assume h: "unat mn \<le> n" "n \<le> unat mx" "0 < n" "(unat mx + 1) mod n = 0"
      "unat mx + n \<le> 256"
    from h have p: "parseIntegral t mn mx = Inr (of_nat n)" by (simp add: pn)
    from h un have nz: "(of_nat n :: uint8) \<noteq> 0" by (auto simp: word_unat_eq_iff)
    from parseIntervals_no_wrap[OF st p nz] h un unat_uint8_le[of mn]
    show "\<exists>len. parseIntervals [''*'', t] mn mx =
                    Some (Inr (map (\<lambda>k. of_nat (unat mn + k * n)) [0..<len])) \<and>
                  (\<forall>k<len. unat mn + k * n < unat mx) \<and>
                  unat mx \<le> unat mn + len * n" by simp
  qed
  have 2: "unat mn \<le> n \<and> n \<le> unat mx \<and> 0 < n \<and> (unat mx + 1) mod n \<noteq> 0 \<and>
             unat mx < 255 \<longrightarrow>
           parseIntervals [''*'', t] mn mx =
             Some (Inl (InvalidRepeatedInterval (of_nat n) (mx + 1)))"
  proof (intro impI, elim conjE)
    assume h: "unat mn \<le> n" "n \<le> unat mx" "0 < n" "(unat mx + 1) mod n \<noteq> 0"
      "unat mx < 255"
    from h have p: "parseIntegral t mn mx = Inr (of_nat n)" by (simp add: pn)
    from h un have nz: "(of_nat n :: uint8) \<noteq> 0" by (auto simp: word_unat_eq_iff)
    from h un have "(mx + 1) mod (of_nat n :: uint8) \<noteq> 0"
      by (simp add: word_mod_check)
    with p nz st show "parseIntervals [''*'', t] mn mx =
        Some (Inl (InvalidRepeatedInterval (of_nat n) (mx + 1)))"
      by (simp add: parseIntervals_def)
  qed
  have 3: "unat mn \<le> n \<and> n \<le> unat mx \<and> n = 0 \<longrightarrow>
           parseIntervals [''*'', t] mn mx = Some (Inl RepeatedIntervalZero)"
    using st by (simp add: parseIntervals_def pn)
  have 4: "n < unat mn \<or> unat mx < n \<longrightarrow>
           parseIntervals [''*'', t] mn mx =
             Some (Inl (CouldNotParseRepeatedInterval (ValueMustBeInRange mn mx)))"
    using st by (auto simp: parseIntervals_def pn)
  show ?thesis by (rule conjI[OF 1 conjI[OF 2 conjI[OF 3 4]]])
qed

text \<open>The four cases of the theorem at the minutes, and the step 0 at the days of the month.\<close>

theorem parseIntervals_wildcard_witness:
  "(\<exists>len. parseIntervals [''*'', ''15''] 0 59 =
            Some (Inr (map (\<lambda>k. of_nat (unat (0::uint8) + k * 15)) [0..<len])) \<and>
          (\<forall>k<len. unat (0::uint8) + k * 15 < unat (59::uint8)) \<and>
          unat (59::uint8) \<le> unat (0::uint8) + len * 15) \<and>
   parseIntervals [''*'', ''15''] 0 59 = Some (Inr [0, 15, 30, 45]) \<and>
   parseIntervals [''*'', ''17''] 0 59 = Some (Inl (InvalidRepeatedInterval 17 60)) \<and>
   parseIntervals [''*'', ''0''] 0 59 = Some (Inl RepeatedIntervalZero) \<and>
   parseIntervals [''*'', ''60''] 0 59 =
     Some (Inl (CouldNotParseRepeatedInterval (ValueMustBeInRange 0 59))) \<and>
   parseIntervals [''*'', ''0''] 1 31 =
     Some (Inl (CouldNotParseRepeatedInterval (ValueMustBeInRange 1 31)))"
proof -
  have p15: "ParseUint ''15'' = Inr 15" by code_simp
  have p17: "ParseUint ''17'' = Inr 17" by code_simp
  have p0: "ParseUint ''0'' = Inr 0" by code_simp
  have p60: "ParseUint ''60'' = Inr 60" by code_simp
  have v: "parseIntervals [''*'', ''15''] 0 59 = Some (Inr [0, 15, 30, 45])" by code_simp
  from parseIntervals_wildcard[OF p15, of 0 59] parseIntervals_wildcard[OF p17, of 0 59]
    parseIntervals_wildcard[OF p0, of 0 59] parseIntervals_wildcard[OF p60, of 0 59]
    parseIntervals_wildcard[OF p0, of 1 31] v
  show ?thesis by simp
qed

text \<open>
  Claim C3 as it is written fails at \<open>n = max + 1\<close>: for the minutes, 60 is positive and
  \<open>(59 + 1) mod 60 = 0\<close>, but \<^verbatim>\<open>*/60\<close> is rejected, since 60 is not within \<open>[0, 59]\<close>.
\<close>

theorem parseIntervals_step_60_counterexample:
  "ParseUint ''60'' = Inr 60 \<and> (0::nat) < 60 \<and> (59 + 1) mod 60 = (0::nat) \<and>
   parseIntervals [''*'', ''60''] minutesMin minutesMax =
     Some (Inl (CouldNotParseRepeatedInterval (ValueMustBeInRange 0 59)))"
  by code_simp

section \<open>The step list parser\<close>

lemma set_first_occurrences: "set (first_occurrences xs) = set xs"
  by (induction xs rule: first_occurrences.induct) auto

lemma distinct_first_occurrences: "distinct (first_occurrences xs)"
  by (induction xs rule: first_occurrences.induct) (auto simp: set_first_occurrences)

lemma parseIntegral_empty: "parseIntegral [] mn mx = Inl (CouldNotParseValue ErrSyntax)"
  by (simp add: parseIntegral_def ParseUint_def)

lemma parseSteps_loop_all_parse:
  "map (\<lambda>s. parseIntegral s mn mx) toks = map Inr ws \<Longrightarrow>
   parseSteps_loop toks mn mx (set acc) acc =
     Inr (acc @ first_occurrences (filter (\<lambda>v. v \<notin> set acc) ws))"
proof (induction toks arbitrary: ws acc)
  case Nil
  then show ?case by simp
next
  case (Cons s ss)
  then obtain w ws' where ws: "ws = w # ws'" and w: "parseIntegral s mn mx = Inr w"
    and rest: "map (\<lambda>s. parseIntegral s mn mx) ss = map Inr ws'"
    by (cases ws) auto
  from w have ne: "s \<noteq> []" by (auto simp: parseIntegral_empty)
  show ?case
  proof (cases "w \<in> set acc")
    case True
    with Cons.IH[OF rest, of acc] ne w ws show ?thesis by simp
  next
    case False
    have "filter (\<lambda>y. y \<noteq> w) (filter (\<lambda>v. v \<notin> set acc) ws') =
          filter (\<lambda>v. v \<notin> set (acc @ [w])) ws'"
      by (auto intro: filter_cong)
    with Cons.IH[OF rest, of "acc @ [w]"] False ne w ws show ?thesis by simp
  qed
qed

lemma parseSteps_loop_empty_fails:
  "[] \<in> set toks \<Longrightarrow> \<exists>e. parseSteps_loop toks mn mx U acc = Inl e"
  by (induction toks arbitrary: U acc) (auto split: sum.splits)

lemma parseSteps_loop_prefix:
  "map (\<lambda>s. parseIntegral s mn mx) pre = map Inr vs \<Longrightarrow>
   \<exists>U' acc'. parseSteps_loop (pre @ rest) mn mx U acc = parseSteps_loop rest mn mx U' acc'"
proof (induction pre arbitrary: vs U acc)
  case Nil
  show ?case by auto
next
  case (Cons s ss)
  then obtain w ws' where w: "parseIntegral s mn mx = Inr w"
    and r: "map (\<lambda>s. parseIntegral s mn mx) ss = map Inr ws'"
    by (cases vs) auto
  from w have ne: "s \<noteq> []" by (auto simp: parseIntegral_empty)
  show ?case
  proof (cases "w \<in> U")
    case True
    with Cons.IH[OF r, of U acc] ne w show ?thesis by simp
  next
    case False
    with Cons.IH[OF r, of "insert w U" "acc @ [w]"] ne w show ?thesis by simp
  qed
qed

text \<open>
  Claim C6, as the code has it. The tokens are handled from left to right and the first
  bad token decides the error. A list with an empty token always fails; it fails with
  the empty-step error when every token before the first empty one parses within the
  bound, and a token that is not empty and does not parse, with only good tokens before
  it, fails with the invalid-step error that wraps its cause. When every token parses
  within the bound, to the values \<open>ws\<close>, the output is \<open>ws\<close> with each distinct value once,
  at the position of its first appearance, in the order of the first appearances.
\<close>

theorem parseSteps_spec:
  "([] \<in> set toks \<longrightarrow> (\<exists>e. parseSteps toks mn mx = Inl e)) \<and>
   (map (\<lambda>s. parseIntegral s mn mx) pre = map Inr vs \<longrightarrow>
      parseSteps (pre @ [] # post) mn mx = Inl ExpectedStep) \<and>
   (map (\<lambda>s. parseIntegral s mn mx) pre = map Inr vs \<and> s \<noteq> [] \<and>
    parseIntegral s mn mx = Inl er \<longrightarrow>
      parseSteps (pre @ s # post) mn mx = Inl (InvalidStep s er)) \<and>
   (map (\<lambda>s. parseIntegral s mn mx) toks = map Inr ws \<longrightarrow>
      parseSteps toks mn mx = Inr (first_occurrences ws) \<and>
      distinct (first_occurrences ws) \<and> set (first_occurrences ws) = set ws)"
proof -
  have 1: "[] \<in> set toks \<longrightarrow> (\<exists>e. parseSteps toks mn mx = Inl e)"
    by (simp add: parseSteps_def parseSteps_loop_empty_fails)
  have 2: "map (\<lambda>s. parseIntegral s mn mx) pre = map Inr vs \<longrightarrow>
      parseSteps (pre @ [] # post) mn mx = Inl ExpectedStep"
  proof
    assume "map (\<lambda>s. parseIntegral s mn mx) pre = map Inr vs"
    from parseSteps_loop_prefix[OF this, of "[] # post" "{}" "[]"]
    show "parseSteps (pre @ [] # post) mn mx = Inl ExpectedStep"
      by (auto simp: parseSteps_def)
  qed
  have 3: "map (\<lambda>s. parseIntegral s mn mx) pre = map Inr vs \<and> s \<noteq> [] \<and>
    parseIntegral s mn mx = Inl er \<longrightarrow>
      parseSteps (pre @ s # post) mn mx = Inl (InvalidStep s er)"
  proof (intro impI, elim conjE)
    assume "map (\<lambda>s. parseIntegral s mn mx) pre = map Inr vs"
      and s: "s \<noteq> []" "parseIntegral s mn mx = Inl er"
    from parseSteps_loop_prefix[OF this(1), of "s # post" "{}" "[]"] s
    show "parseSteps (pre @ s # post) mn mx = Inl (InvalidStep s er)"
      by (auto simp: parseSteps_def)
  qed
  have 4: "map (\<lambda>s. parseIntegral s mn mx) toks = map Inr ws \<longrightarrow>
      parseSteps toks mn mx = Inr (first_occurrences ws) \<and>
      distinct (first_occurrences ws) \<and> set (first_occurrences ws) = set ws"
  proof
    assume "map (\<lambda>s. parseIntegral s mn mx) toks = map Inr ws"
    from parseSteps_loop_all_parse[OF this, of "[]"]
    show "parseSteps toks mn mx = Inr (first_occurrences ws) \<and>
      distinct (first_occurrences ws) \<and> set (first_occurrences ws) = set ws"
      by (simp add: parseSteps_def set_first_occurrences distinct_first_occurrences)
  qed
  show ?thesis by (rule conjI[OF 1 conjI[OF 2 conjI[OF 3 4]]])
qed

text \<open>
  The theorem at a list with an empty token, at a list with a token out of the bound, at a
  list with repeated values, and at the list of the test suite.
\<close>

theorem parseSteps_spec_witness:
  "(\<exists>e. parseSteps [''1'', '''', ''x''] 0 59 = Inl e) \<and>
   parseSteps [''1'', '''', ''x''] 0 59 = Inl ExpectedStep \<and>
   parseSteps [''1'', ''60'', ''x''] 0 59 = Inl (InvalidStep ''60'' (ValueMustBeInRange 0 59)) \<and>
   parseSteps [''5'', ''3'', ''5'', ''1'', ''3''] 0 59 = Inr [5, 3, 1] \<and>
   parseSteps [''15'', ''30'', ''45'', ''00''] 0 59 = Inr [15, 30, 45, 0]"
proof -
  have c: "map (\<lambda>s. parseIntegral s 0 59) [''1''] = map Inr [1]" by code_simp
  have d: "''60'' \<noteq> []" "parseIntegral ''60'' 0 59 = Inl (ValueMustBeInRange 0 59)"
    by code_simp+
  have e: "[] \<in> set [''1'', '''', ''x'']" by simp
  from parseSteps_spec[of "[''1'', '''', ''x'']" 0 59 "[''1'']" "[1]" "[''x'']" "''60''"
      "ValueMustBeInRange 0 59" "[1]"] c d e
  have 1: "\<exists>e. parseSteps [''1'', '''', ''x''] 0 59 = Inl e"
    and 2: "parseSteps [''1'', '''', ''x''] 0 59 = Inl ExpectedStep"
    and 3: "parseSteps [''1'', ''60'', ''x''] 0 59 =
              Inl (InvalidStep ''60'' (ValueMustBeInRange 0 59))"
    by simp_all
  have b: "map (\<lambda>s. parseIntegral s 0 59) [''5'', ''3'', ''5'', ''1'', ''3''] =
           map Inr [5, 3, 5, 1, 3]" by code_simp
  have b': "first_occurrences [5, 3, 5, 1, 3 :: uint8] = [5, 3, 1]" by code_simp
  from parseSteps_spec[of "[''5'', ''3'', ''5'', ''1'', ''3'']" 0 59 "[]" "[]" "[]" "''x''"
      ErrSyntax "[5, 3, 5, 1, 3]"] b b'
  have 4: "parseSteps [''5'', ''3'', ''5'', ''1'', ''3''] 0 59 = Inr [5, 3, 1]" by simp
  have a: "map (\<lambda>s. parseIntegral s 0 59) [''15'', ''30'', ''45'', ''00''] =
           map Inr [15, 30, 45, 0]" by code_simp
  have a': "first_occurrences [15, 30, 45, 0 :: uint8] = [15, 30, 45, 0]" by code_simp
  from parseSteps_spec[of "[''15'', ''30'', ''45'', ''00'']" 0 59 "[]" "[]" "[]" "''x''"
      ErrSyntax "[15, 30, 45, 0]"] a a'
  have 5: "parseSteps [''15'', ''30'', ''45'', ''00''] 0 59 = Inr [15, 30, 45, 0]" by simp
  from 1 2 3 4 5 show ?thesis by simp
qed

text \<open>
  Claim C6 as it is written names the empty-step error for every list that has an empty
  token. Over \<open>[0, 59]\<close> the list of \<^verbatim>\<open>60\<close> and the empty token fails at its first token,
  with the invalid-step error, and the empty token is never looked at.
\<close>

theorem parseSteps_order_counterexample:
  "[] \<in> set [''60'', ''''] \<and>
   parseSteps [''60'', ''''] 0 59 = Inl (InvalidStep ''60'' (ValueMustBeInRange 0 59)) \<and>
   parseSteps [''60'', ''''] 0 59 \<noteq> Inl ExpectedStep"
proof -
  have "parseSteps [''60'', ''''] 0 59 = Inl (InvalidStep ''60'' (ValueMustBeInRange 0 59))"
    by code_simp
  then show ?thesis by simp
qed

section \<open>The field dispatcher\<close>

lemma wildcard_loop:
  "range_loop mn mx [] =
     (if mx = 255 then None else Some (map of_nat [unat mn ..< Suc (unat mx)]))"
proof (cases "mx = 255")
  case True
  then show ?thesis by (simp add: range_loop_diverges)
next
  case False
  then have "unat mx \<noteq> 255" by (simp add: word_unat_eq_iff)
  with unat_uint8_le[of mx] have "unat mx < 255" by simp
  from range_loop_returns[OF this, of mn "[]"] False show ?thesis by simp
qed

lemma length_Split_Suc: "Suc 0 < length (Split s c) \<longleftrightarrow> c \<in> set s"
  using length_Split[of s c] by simp

lemma parseTime_strategy:
  "parseTime tok mn mx =
     (if tok = [] then Some (Inl ExpectedArg)
      else if tok = ''*''
      then (if mx = 255 then None else Some (Inr (map of_nat [unat mn ..< Suc (unat mx)])))
      else if CHR ''-'' \<in> set tok then parseRange (Split tok CHR ''-'') mn mx
      else if CHR '','' \<in> set tok then Some (parseSteps (Split tok CHR '','') mn mx)
      else if CHR ''/'' \<in> set tok then parseIntervals (Split tok CHR ''/'') mn mx
      else (case parseIntegral tok mn mx of
              Inl err \<Rightarrow> Some (Inl (CouldNotParseExactValue err))
            | Inr exact \<Rightarrow> Some (Inr [exact])))"
  by (simp add: parseTime_def length_Split_Suc wildcard_loop)

text \<open>
  Claim C7. The field dispatcher tries its strategies in a fixed order and the first
  match wins: the empty token is an error; a token exactly equal to \<^verbatim>\<open>*\<close> yields the
  full ascending sequence \<open>min, \<dots>, max\<close> (for \<open>max < 255\<close>, within the 8-bit counting of
  the loop, as at the five bounds of \<^verbatim>\<open>ParseExpression\<close>); else a token that contains
  \<^verbatim>\<open>-\<close> goes to the range expander, with its parts split at every \<^verbatim>\<open>-\<close>; else one
  that contains a comma goes to the step list parser; else one that contains \<^verbatim>\<open>/\<close> goes
  to the interval expander; else the whole token is parsed as an exact integer and yields
  a sequence of one element. So \<^verbatim>\<open>1-5/2\<close> is handled as the range from \<^verbatim>\<open>1\<close> to
  \<^verbatim>\<open>5/2\<close>, whose second end point is no integer, and fails at every bound: separators
  are never composed.
\<close>

theorem parseTime_dispatch:
  "parseTime [] mn mx = Some (Inl ExpectedArg) \<and>
   (mx < 255 \<longrightarrow>
      parseTime ''*'' mn mx = Some (Inr (map of_nat [unat mn ..< Suc (unat mx)]))) \<and>
   (tok \<noteq> [] \<and> tok \<noteq> ''*'' \<longrightarrow>
      parseTime tok mn mx =
        (if CHR ''-'' \<in> set tok then parseRange (Split tok CHR ''-'') mn mx
         else if CHR '','' \<in> set tok then Some (parseSteps (Split tok CHR '','') mn mx)
         else if CHR ''/'' \<in> set tok then parseIntervals (Split tok CHR ''/'') mn mx
         else (case parseIntegral tok mn mx of
                 Inl err \<Rightarrow> Some (Inl (CouldNotParseExactValue err))
               | Inr exact \<Rightarrow> Some (Inr [exact])))) \<and>
   parseTime ''1-5/2'' mn mx = parseRange [''1'', ''5/2''] mn mx \<and>
   parseIntegral ''5/2'' mn mx = Inl (CouldNotParseValue ErrSyntax) \<and>
   (\<exists>e. parseTime ''1-5/2'' mn mx = Some (Inl e))"
proof -
  have 0: "parseTime [] mn mx = Some (Inl ExpectedArg)"
    by (simp add: parseTime_strategy)
  have 1: "mx < 255 \<longrightarrow>
      parseTime ''*'' mn mx = Some (Inr (map of_nat [unat mn ..< Suc (unat mx)]))"
    by (auto simp: parseTime_strategy)
  have 2: "tok \<noteq> [] \<and> tok \<noteq> ''*'' \<longrightarrow>
      parseTime tok mn mx =
        (if CHR ''-'' \<in> set tok then parseRange (Split tok CHR ''-'') mn mx
         else if CHR '','' \<in> set tok then Some (parseSteps (Split tok CHR '','') mn mx)
         else if CHR ''/'' \<in> set tok then parseIntervals (Split tok CHR ''/'') mn mx
         else (case parseIntegral tok mn mx of
                 Inl err \<Rightarrow> Some (Inl (CouldNotParseExactValue err))
               | Inr exact \<Rightarrow> Some (Inr [exact])))"
    by (simp add: parseTime_strategy[of tok])
  have s: "Split ''1-5/2'' CHR ''-'' = [''1'', ''5/2'']" by code_simp
  have 3: "parseTime ''1-5/2'' mn mx = parseRange [''1'', ''5/2''] mn mx"
    by (simp add: parseTime_def s)
  have 4: "parseIntegral ''5/2'' mn mx = Inl (CouldNotParseValue ErrSyntax)"
    by (simp add: parseIntegral_def ParseUint_def)
  have 5: "\<exists>e. parseTime ''1-5/2'' mn mx = Some (Inl e)"
    unfolding 3 by (cases "parseIntegral ''1'' mn mx") (simp_all add: parseRange_def 4)
  show ?thesis by (rule conjI[OF 0 conjI[OF 1 conjI[OF 2 conjI[OF 3 conjI[OF 4 5]]]]])
qed

text \<open>The theorem at the tokens of the test suite, one for each strategy.\<close>

theorem parseTime_dispatch_witness:
  "parseTime ''*'' 0 23 =
     Some (Inr [0, 1, 2, 3, 4, 5, 6, 7, 8, 9, 10, 11, 12, 13, 14, 15, 16, 17, 18, 19, 20, 21,
                22, 23]) \<and>
   parseTime ''1-10'' 0 59 = parseRange [''1'', ''10''] 0 59 \<and>
   parseTime ''15,30,45,00'' 0 59 = Some (parseSteps [''15'', ''30'', ''45'', ''00''] 0 59) \<and>
   parseTime ''*/15'' 0 59 = parseIntervals [''*'', ''15''] 0 59 \<and>
   parseTime ''7'' 0 59 = Some (Inr [7]) \<and>
   parseTime ''1-5/2'' 0 59 =
     Some (Inl (InvalidEndOfRange ''5/2'' (CouldNotParseValue ErrSyntax)))"
proof -
  have l: "map of_nat [unat (0::uint8) ..< Suc (unat (23::uint8))] =
    [0, 1, 2, 3, 4, 5, 6, 7, 8, 9, 10, 11, 12, 13, 14, 15, 16, 17, 18, 19, 20, 21, 22, 23 :: uint8]"
    by code_simp
  have s1: "Split ''1-10'' CHR ''-'' = [''1'', ''10'']" by code_simp
  have s2: "Split ''15,30,45,00'' CHR '','' = [''15'', ''30'', ''45'', ''00'']" by code_simp
  have s3: "Split ''*/15'' CHR ''/'' = [''*'', ''15'']" by code_simp
  have p7: "parseIntegral ''7'' 0 59 = Inr 7" by code_simp
  have p1: "parseIntegral ''1'' 0 59 = Inr 1" by code_simp
  have lt: "(23::uint8) < 255" by simp
  from parseTime_dispatch[where mn = 0 and mx = 23 and tok = "''*''",
      THEN conjunct2, THEN conjunct1] lt l
  have 1: "parseTime ''*'' 0 23 =
     Some (Inr [0, 1, 2, 3, 4, 5, 6, 7, 8, 9, 10, 11, 12, 13, 14, 15, 16, 17, 18, 19, 20, 21,
                22, 23])" by simp
  from parseTime_dispatch[where mn = 0 and mx = 59 and tok = "''1-10''",
      THEN conjunct2, THEN conjunct2, THEN conjunct1] s1
  have 2: "parseTime ''1-10'' 0 59 = parseRange [''1'', ''10''] 0 59" by simp
  from parseTime_dispatch[where mn = 0 and mx = 59 and tok = "''15,30,45,00''",
      THEN conjunct2, THEN conjunct2, THEN conjunct1] s2
  have 3: "parseTime ''15,30,45,00'' 0 59 = Some (parseSteps [''15'', ''30'', ''45'', ''00''] 0 59)"
    by simp
  from parseTime_dispatch[where mn = 0 and mx = 59 and tok = "''*/15''",
      THEN conjunct2, THEN conjunct2, THEN conjunct1] s3
  have 4: "parseTime ''*/15'' 0 59 = parseIntervals [''*'', ''15''] 0 59" by simp
  from parseTime_dispatch[where mn = 0 and mx = 59 and tok = "''7''",
      THEN conjunct2, THEN conjunct2, THEN conjunct1] p7
  have 5: "parseTime ''7'' 0 59 = Some (Inr [7])" by simp
  note d = parseTime_dispatch[where mn = 0 and mx = 59 and tok = "''1-5/2''",
      THEN conjunct2, THEN conjunct2, THEN conjunct2]
  from d[THEN conjunct1] d[THEN conjunct2, THEN conjunct1] p1
  have 6: "parseTime ''1-5/2'' 0 59 =
     Some (Inl (InvalidEndOfRange ''5/2'' (CouldNotParseValue ErrSyntax)))"
    by (simp add: parseRange_def)
  from 1 2 3 4 5 6 show ?thesis by (intro conjI)
qed

section \<open>The field dispatcher at bounds below 128\<close>

lemma of_nat_between:
  fixes a b :: uint8
  assumes "unat a \<le> k" and "k \<le> unat b"
  shows "a \<le> of_nat k \<and> (of_nat k :: uint8) \<le> b"
proof -
  from assms(2) have "unat (of_nat k :: uint8) = k" by (rule le_unat_uoi)
  with assms show ?thesis by (simp add: word_le_nat_alt)
qed

lemma upto_within:
  fixes mn mx first en :: uint8
  assumes "mn \<le> first" and "en \<le> mx" and "x \<in> set (map of_nat [unat first ..< Suc (unat en)])"
  shows "mn \<le> x \<and> x \<le> mx"
proof -
  from assms(3) obtain k where k: "x = of_nat k" "unat first \<le> k" "k \<le> unat en" by auto
  from assms(1,2) k have "unat mn \<le> k" "k \<le> unat mx" by (simp_all add: word_le_nat_alt)
  then show ?thesis unfolding k(1) by (rule of_nat_between)
qed

lemma parseRange_small:
  assumes "unat mx < 128"
  shows "\<exists>r. parseRange toks mn mx = Some r \<and>
           (\<forall>xs. r = Inr xs \<longrightarrow> (\<forall>x\<in>set xs. mn \<le> x \<and> x \<le> mx))"
proof (cases "length toks \<noteq> 2")
  case True
  then show ?thesis by (simp add: parseRange_def)
next
  case len: False
  show ?thesis
  proof (cases "parseIntegral (toks ! 0) mn mx")
    case (Inl e)
    with len show ?thesis by (simp add: parseRange_def)
  next
    case a: (Inr first)
    show ?thesis
    proof (cases "parseIntegral (toks ! 1) mn mx")
      case (Inl e)
      with len a show ?thesis by (simp add: parseRange_def)
    next
      case b: (Inr en)
      show ?thesis
      proof (cases "en \<le> first")
        case True
        with len a b show ?thesis by (simp add: parseRange_def)
      next
        case False
        from parseIntegral_bounds[OF a] parseIntegral_bounds[OF b]
        have bd: "mn \<le> first" "en \<le> mx" by simp_all
        with assms have "unat en < 255" by (simp add: word_le_nat_alt)
        from range_loop_returns[OF this, of first "[]"] len a b False
        have "parseRange toks mn mx = Some (Inr (map of_nat [unat first ..< Suc (unat en)]))"
          by (simp add: parseRange_def)
        with upto_within[OF bd] show ?thesis by blast
      qed
    qed
  qed
qed

lemma parseSteps_loop_bounds:
  "\<forall>x\<in>set acc. mn \<le> x \<and> x \<le> mx \<Longrightarrow> parseSteps_loop toks mn mx U acc = Inr xs \<Longrightarrow>
   \<forall>x\<in>set xs. mn \<le> x \<and> x \<le> mx"
proof (induction toks arbitrary: U acc)
  case Nil
  then show ?case by simp
next
  case (Cons s ss)
  from Cons.prems(2) obtain w where w: "parseIntegral s mn mx = Inr w"
    by (cases "parseIntegral s mn mx") (auto split: if_splits)
  from parseIntegral_bounds[OF w] Cons.prems(1)
  have acc': "\<forall>x\<in>set (acc @ [w]). mn \<le> x \<and> x \<le> mx" by auto
  show ?case
  proof (cases "w \<in> U")
    case True
    with Cons.prems(2) w have "parseSteps_loop ss mn mx U acc = Inr xs"
      by (simp split: if_splits)
    with Cons.IH[OF Cons.prems(1)] show ?thesis .
  next
    case False
    with Cons.prems(2) w have "parseSteps_loop ss mn mx (insert w U) (acc @ [w]) = Inr xs"
      by (simp split: if_splits)
    with Cons.IH[OF acc'] show ?thesis .
  qed
qed

lemma parseStart_cases:
  assumes "parseStart s mn mx = Inr start"
  shows "start = 0 \<or> (mn \<le> start \<and> start \<le> mx)"
  using assms parseIntegral_bounds[of s mn mx start]
  by (auto simp: parseStart_def split: if_splits sum.splits)

lemma parseIntervals_small:
  assumes "unat mx < 128"
  shows "\<exists>r. parseIntervals toks mn mx = Some r \<and>
           (\<forall>xs. r = Inr xs \<longrightarrow> (\<forall>x\<in>set xs. mn \<le> x \<and> x \<le> mx))"
proof (cases "length toks \<noteq> 2")
  case True
  then show ?thesis by (simp add: parseIntervals_def)
next
  case len: False
  show ?thesis
  proof (cases "parseStart (toks ! 0) mn mx")
    case (Inl e)
    with len show ?thesis by (simp add: parseIntervals_def)
  next
    case a: (Inr start)
    show ?thesis
    proof (cases "parseIntegral (toks ! 1) mn mx")
      case (Inl e)
      with len a show ?thesis by (simp add: parseIntervals_def)
    next
      case b: (Inr every)
      show ?thesis
      proof (cases "every = 0 \<or> (mx + 1) mod every \<noteq> 0")
        case True
        show ?thesis
        proof (cases "every = 0")
          case True
          with len a b show ?thesis by (simp add: parseIntervals_def)
        next
          case False
          with True have "(mx + 1) mod every \<noteq> 0" by simp
          with False len a b show ?thesis by (simp add: parseIntervals_def)
        qed
      next
        case False
        then have nz: "every \<noteq> 0" and chk: "(mx + 1) mod every = 0" by simp_all
        from parseIntegral_bounds[OF b] have eb: "unat mn \<le> unat every" "unat every \<le> unat mx"
          by (simp_all add: word_le_nat_alt)
        from parseStart_cases[OF a] have "unat start \<le> unat mx"
          by (auto simp: word_le_nat_alt)
        with eb assms have s0: "unat (start + mn) = unat start + unat mn"
          by (simp add: unat_word_ariths)
        from eb assms have nw: "unat mx + unat every \<le> 256" by simp
        from intervals_loop_returns[OF nz nw, of "start + mn" "[]"] obtain n where
          n: "intervals_loop (start + mn) mx every [] =
                Some (map (\<lambda>k. of_nat (unat (start + mn) + k * unat every)) [0..<n])"
             "\<forall>k<n. unat (start + mn) + k * unat every < unat mx"
          by auto
        let ?xs = "map (\<lambda>k. of_nat (unat (start + mn) + k * unat every) :: uint8) [0..<n]"
        from len a b nz chk n(1) have r: "parseIntervals toks mn mx = Some (Inr ?xs)"
          by (simp add: parseIntervals_def)
        have "mn \<le> x \<and> x \<le> mx" if "x \<in> set ?xs" for x
        proof -
          from that obtain k where k: "k < n" "x = of_nat (unat (start + mn) + k * unat every)"
            by auto
          from n(2) k(1) have "unat (start + mn) + k * unat every \<le> unat mx" by auto
          moreover from s0 have "unat mn \<le> unat (start + mn) + k * unat every" by simp
          ultimately show ?thesis unfolding k(2) by (intro of_nat_between)
        qed
        with r show ?thesis by blast
      qed
    qed
  qed
qed

lemma parseTime_small:
  assumes "unat mx < 128"
  shows "\<exists>r. parseTime arg mn mx = Some r \<and>
           (\<forall>xs. r = Inr xs \<longrightarrow> (\<forall>x\<in>set xs. mn \<le> x \<and> x \<le> mx))"
proof -
  from assms have ne: "mx \<noteq> 255" by auto
  have wild: "\<forall>x\<in>set (map of_nat [unat mn ..< Suc (unat mx)]). mn \<le> x \<and> x \<le> mx"
    using upto_within[of mn mn mx mx] by simp
  have steps: "\<forall>xs. parseSteps toks mn mx = Inr xs \<longrightarrow> (\<forall>x\<in>set xs. mn \<le> x \<and> x \<le> mx)"
    for toks
    using parseSteps_loop_bounds[of "[]" mn mx toks "{}"] by (simp add: parseSteps_def)
  have exact: "\<exists>r. (case parseIntegral arg mn mx of
                       Inl err \<Rightarrow> Some (Inl (CouldNotParseExactValue err))
                     | Inr exact \<Rightarrow> Some (Inr [exact])) = Some r \<and>
           (\<forall>xs. r = Inr xs \<longrightarrow> (\<forall>x\<in>set xs. mn \<le> x \<and> x \<le> mx))"
    using parseIntegral_bounds[of arg mn mx] by (cases "parseIntegral arg mn mx") auto
  note d = parseTime_strategy[of arg mn mx]
  consider "arg = []" | "arg \<noteq> []" "arg = ''*''"
    | "arg \<noteq> []" "arg \<noteq> ''*''" "CHR ''-'' \<in> set arg"
    | "arg \<noteq> []" "arg \<noteq> ''*''" "CHR ''-'' \<notin> set arg" "CHR '','' \<in> set arg"
    | "arg \<noteq> []" "arg \<noteq> ''*''" "CHR ''-'' \<notin> set arg" "CHR '','' \<notin> set arg"
      "CHR ''/'' \<in> set arg"
    | "arg \<noteq> []" "arg \<noteq> ''*''" "CHR ''-'' \<notin> set arg" "CHR '','' \<notin> set arg"
      "CHR ''/'' \<notin> set arg"
    by blast
  then show ?thesis
  proof cases
    case 1
    with d show ?thesis by simp
  next
    case 2
    with d ne wild show ?thesis by simp
  next
    case 3
    with d parseRange_small[OF assms, of "Split arg CHR ''-''" mn] show ?thesis by simp
  next
    case 4
    with d steps[of "Split arg CHR '',''"] show ?thesis by simp
  next
    case 5
    with d parseIntervals_small[OF assms, of "Split arg CHR ''/''" mn] show ?thesis by simp
  next
    case 6
    with d exact show ?thesis by simp
  qed
qed

lemma parseTime_within:
  "unat mx < 128 \<Longrightarrow> parseTime arg mn mx = Some (Inr xs) \<Longrightarrow> x \<in> set xs \<Longrightarrow> mn \<le> x \<and> x \<le> mx"
  using parseTime_small[of mx arg mn] by auto

lemma parseTime_returns: "unat mx < 128 \<Longrightarrow> parseTime arg mn mx \<noteq> None"
  using parseTime_small[of mx arg mn] by auto

section \<open>The expression assembler\<close>

lemma canonical_small:
  "unat minutesMax < 128" "unat hoursMax < 128" "unat daysInMonthMax < 128"
  "unat monthsMax < 128" "unat weekdaysMax < 128"
  by (simp_all add: minutesMax_def hoursMax_def daysInMonthMax_def monthsMax_def weekdaysMax_def)

lemma genSplit_not_Nil: "genSplit s c k \<noteq> []"
  by (cases k) (simp_all split: option.splits)

lemma SplitN_not_Nil: "SplitN line c numExressionArgs \<noteq> []"
  by (simp add: SplitN_def numExressionArgs_def genSplit_not_Nil)

lemma ParseExpression_returns: "ParseExpression line \<noteq> None"
  by (simp add: ParseExpression_def Let_def
      parseTime_returns[OF canonical_small(1)] parseTime_returns[OF canonical_small(2)]
      parseTime_returns[OF canonical_small(3)] parseTime_returns[OF canonical_small(4)]
      parseTime_returns[OF canonical_small(5)]
      split: option.splits sum.splits)

text \<open>
  Claim C8, as the code has it. The call always comes back (it returns or panics); the
  five fields are parsed in order and the first one that fails ends the call, with an
  error that names that field and wraps the cause; an empty sixth part ends it with the
  empty-command error. Every returned error is one of these six. The expression that is
  returned beside the error is the one assembled so far: it holds the expansions of the
  fields before the failing one, the other fields are empty, and its command is always
  empty. So the caller does get a partly assembled expression on failure.
\<close>

theorem ParseExpression_failure:
  assumes "SplitN line CHR '' '' numExressionArgs = args"
  shows "ParseExpression line \<noteq> None \<and>
    (parseTime (args ! 0) minutesMin minutesMax = Some (Inl er) \<longrightarrow>
       ParseExpression line = Some (Return zero_Expression (Some (InvalidMinutesArg er)))) \<and>
    (1 < length args \<and> parseTime (args ! 0) minutesMin minutesMax = Some (Inr v0) \<and>
     parseTime (args ! 1) hoursMin hoursMax = Some (Inl er) \<longrightarrow>
       ParseExpression line =
         Some (Return (zero_Expression\<lparr>Minutes := v0\<rparr>) (Some (InvalidHoursArg er)))) \<and>
    (2 < length args \<and> parseTime (args ! 0) minutesMin minutesMax = Some (Inr v0) \<and>
     parseTime (args ! 1) hoursMin hoursMax = Some (Inr v1) \<and>
     parseTime (args ! 2) daysInMonthMin daysInMonthMax = Some (Inl er) \<longrightarrow>
       ParseExpression line =
         Some (Return (zero_Expression\<lparr>Minutes := v0, Hours := v1\<rparr>)
                (Some (InvalidMonthdaysArg er)))) \<and>
    (3 < length args \<and> parseTime (args ! 0) minutesMin minutesMax = Some (Inr v0) \<and>
     parseTime (args ! 1) hoursMin hoursMax = Some (Inr v1) \<and>
     parseTime (args ! 2) daysInMonthMin daysInMonthMax = Some (Inr v2) \<and>
     parseTime (args ! 3) monthsMin monthsMax = Some (Inl er) \<longrightarrow>
       ParseExpression line =
         Some (Return (zero_Expression\<lparr>Minutes := v0, Hours := v1, MonthDays := v2\<rparr>)
                (Some (InvalidMonthArg er)))) \<and>
    (4 < length args \<and> parseTime (args ! 0) minutesMin minutesMax = Some (Inr v0) \<and>
     parseTime (args ! 1) hoursMin hoursMax = Some (Inr v1) \<and>
     parseTime (args ! 2) daysInMonthMin daysInMonthMax = Some (Inr v2) \<and>
     parseTime (args ! 3) monthsMin monthsMax = Some (Inr v3) \<and>
     parseTime (args ! 4) weekdaysMin weekdaysMax = Some (Inl er) \<longrightarrow>
       ParseExpression line =
         Some (Return (zero_Expression\<lparr>Minutes := v0, Hours := v1, MonthDays := v2,
                         Months := v3\<rparr>)
                (Some (InvalidWeekdaysArg er)))) \<and>
    (5 < length args \<and> parseTime (args ! 0) minutesMin minutesMax = Some (Inr v0) \<and>
     parseTime (args ! 1) hoursMin hoursMax = Some (Inr v1) \<and>
     parseTime (args ! 2) daysInMonthMin daysInMonthMax = Some (Inr v2) \<and>
     parseTime (args ! 3) monthsMin monthsMax = Some (Inr v3) \<and>
     parseTime (args ! 4) weekdaysMin weekdaysMax = Some (Inr v4) \<and> args ! 5 = [] \<longrightarrow>
       ParseExpression line =
         Some (Return (zero_Expression\<lparr>Minutes := v0, Hours := v1, MonthDays := v2,
                         Months := v3, WeekDays := v4\<rparr>)
                (Some ExpectedCommand))) \<and>
    (\<forall>e err. ParseExpression line = Some (Return e (Some err)) \<longrightarrow>
       Command e = [] \<and>
       (err = ExpectedCommand \<or>
        (\<exists>c. err = InvalidMinutesArg c \<or> err = InvalidHoursArg c \<or>
             err = InvalidMonthdaysArg c \<or> err = InvalidMonthArg c \<or>
             err = InvalidWeekdaysArg c)))"
proof -
  have ne: "length args \<noteq> 0"
    using assms SplitN_not_Nil[of line "CHR '' ''"] by simp
  note d = ParseExpression_def Let_def assms
  have 0: "ParseExpression line \<noteq> None" by (rule ParseExpression_returns)
  have 1: "parseTime (args ! 0) minutesMin minutesMax = Some (Inl er) \<longrightarrow>
       ParseExpression line = Some (Return zero_Expression (Some (InvalidMinutesArg er)))"
    using ne by (simp add: d)
  have 2: "1 < length args \<and> parseTime (args ! 0) minutesMin minutesMax = Some (Inr v0) \<and>
     parseTime (args ! 1) hoursMin hoursMax = Some (Inl er) \<longrightarrow>
       ParseExpression line =
         Some (Return (zero_Expression\<lparr>Minutes := v0\<rparr>) (Some (InvalidHoursArg er)))"
    by (simp add: d)
  have 3: "2 < length args \<and> parseTime (args ! 0) minutesMin minutesMax = Some (Inr v0) \<and>
     parseTime (args ! 1) hoursMin hoursMax = Some (Inr v1) \<and>
     parseTime (args ! 2) daysInMonthMin daysInMonthMax = Some (Inl er) \<longrightarrow>
       ParseExpression line =
         Some (Return (zero_Expression\<lparr>Minutes := v0, Hours := v1\<rparr>)
                (Some (InvalidMonthdaysArg er)))"
    by (simp add: d)
  have 4: "3 < length args \<and> parseTime (args ! 0) minutesMin minutesMax = Some (Inr v0) \<and>
     parseTime (args ! 1) hoursMin hoursMax = Some (Inr v1) \<and>
     parseTime (args ! 2) daysInMonthMin daysInMonthMax = Some (Inr v2) \<and>
     parseTime (args ! 3) monthsMin monthsMax = Some (Inl er) \<longrightarrow>
       ParseExpression line =
         Some (Return (zero_Expression\<lparr>Minutes := v0, Hours := v1, MonthDays := v2\<rparr>)
                (Some (InvalidMonthArg er)))"
    by (simp add: d)
  have 5: "4 < length args \<and> parseTime (args ! 0) minutesMin minutesMax = Some (Inr v0) \<and>
     parseTime (args ! 1) hoursMin hoursMax = Some (Inr v1) \<and>
     parseTime (args ! 2) daysInMonthMin daysInMonthMax = Some (Inr v2) \<and>
     parseTime (args ! 3) monthsMin monthsMax = Some (Inr v3) \<and>
     parseTime (args ! 4) weekdaysMin weekdaysMax = Some (Inl er) \<longrightarrow>
       ParseExpression line =
         Some (Return (zero_Expression\<lparr>Minutes := v0, Hours := v1, MonthDays := v2,
                         Months := v3\<rparr>)
                (Some (InvalidWeekdaysArg er)))"
    by (simp add: d)
  have 6: "5 < length args \<and> parseTime (args ! 0) minutesMin minutesMax = Some (Inr v0) \<and>
     parseTime (args ! 1) hoursMin hoursMax = Some (Inr v1) \<and>
     parseTime (args ! 2) daysInMonthMin daysInMonthMax = Some (Inr v2) \<and>
     parseTime (args ! 3) monthsMin monthsMax = Some (Inr v3) \<and>
     parseTime (args ! 4) weekdaysMin weekdaysMax = Some (Inr v4) \<and> args ! 5 = [] \<longrightarrow>
       ParseExpression line =
         Some (Return (zero_Expression\<lparr>Minutes := v0, Hours := v1, MonthDays := v2,
                         Months := v3, WeekDays := v4\<rparr>)
                (Some ExpectedCommand))"
    by (simp add: d)
  have 7: "\<forall>e err. ParseExpression line = Some (Return e (Some err)) \<longrightarrow>
       Command e = [] \<and>
       (err = ExpectedCommand \<or>
        (\<exists>c. err = InvalidMinutesArg c \<or> err = InvalidHoursArg c \<or>
             err = InvalidMonthdaysArg c \<or> err = InvalidMonthArg c \<or>
             err = InvalidWeekdaysArg c))"
    by (auto simp: d zero_Expression_def split: if_splits option.splits sum.splits)
  show ?thesis
    by (rule conjI[OF 0 conjI[OF 1 conjI[OF 2 conjI[OF 3 conjI[OF 4 conjI[OF 5 conjI[OF 6 7]]]]]]])
qed

text \<open>The theorem at one line for each of the six failures.\<close>

theorem ParseExpression_failure_witness:
  "ParseExpression ''x'' =
     Some (Return zero_Expression
       (Some (InvalidMinutesArg (CouldNotParseExactValue (CouldNotParseValue ErrSyntax))))) \<and>
   ParseExpression ''5 24'' =
     Some (Return (zero_Expression\<lparr>Minutes := [5]\<rparr>)
       (Some (InvalidHoursArg (CouldNotParseExactValue (ValueMustBeInRange 0 23))))) \<and>
   ParseExpression ''5 4 0 * * cmd'' =
     Some (Return (zero_Expression\<lparr>Minutes := [5], Hours := [4]\<rparr>)
       (Some (InvalidMonthdaysArg (CouldNotParseExactValue (ValueMustBeInRange 1 31))))) \<and>
   ParseExpression ''5 4 3 1- * cmd'' =
     Some (Return (zero_Expression\<lparr>Minutes := [5], Hours := [4], MonthDays := [3]\<rparr>)
       (Some (InvalidMonthArg (InvalidEndOfRange [] (CouldNotParseValue ErrSyntax))))) \<and>
   ParseExpression ''5 4 3 2 1,,2 cmd'' =
     Some (Return (zero_Expression\<lparr>Minutes := [5], Hours := [4], MonthDays := [3],
                     Months := [2]\<rparr>)
       (Some (InvalidWeekdaysArg ExpectedStep))) \<and>
   ParseExpression ''5 4 3 2 1 '' =
     Some (Return (zero_Expression\<lparr>Minutes := [5], Hours := [4], MonthDays := [3],
                     Months := [2], WeekDays := [1]\<rparr>)
       (Some ExpectedCommand))"
proof -
  have s1: "SplitN ''x'' CHR '' '' numExressionArgs = [''x'']" by code_simp
  have s2: "SplitN ''5 24'' CHR '' '' numExressionArgs = [''5'', ''24'']" by code_simp
  have s3: "SplitN ''5 4 0 * * cmd'' CHR '' '' numExressionArgs =
              [''5'', ''4'', ''0'', ''*'', ''*'', ''cmd'']" by code_simp
  have s4: "SplitN ''5 4 3 1- * cmd'' CHR '' '' numExressionArgs =
              [''5'', ''4'', ''3'', ''1-'', ''*'', ''cmd'']" by code_simp
  have s5: "SplitN ''5 4 3 2 1,,2 cmd'' CHR '' '' numExressionArgs =
              [''5'', ''4'', ''3'', ''2'', ''1,,2'', ''cmd'']" by code_simp
  have s6: "SplitN ''5 4 3 2 1 '' CHR '' '' numExressionArgs =
              [''5'', ''4'', ''3'', ''2'', ''1'', []]" by code_simp
  have f0: "parseTime ''x'' minutesMin minutesMax =
              Some (Inl (CouldNotParseExactValue (CouldNotParseValue ErrSyntax)))" by code_simp
  have f1: "parseTime ''24'' hoursMin hoursMax =
              Some (Inl (CouldNotParseExactValue (ValueMustBeInRange 0 23)))" by code_simp
  have f2: "parseTime ''0'' daysInMonthMin daysInMonthMax =
              Some (Inl (CouldNotParseExactValue (ValueMustBeInRange 1 31)))" by code_simp
  have f3: "parseTime ''1-'' monthsMin monthsMax =
              Some (Inl (InvalidEndOfRange [] (CouldNotParseValue ErrSyntax)))" by code_simp
  have f4: "parseTime ''1,,2'' weekdaysMin weekdaysMax = Some (Inl ExpectedStep)" by code_simp
  have g0: "parseTime ''5'' minutesMin minutesMax = Some (Inr [5])" by code_simp
  have g1: "parseTime ''4'' hoursMin hoursMax = Some (Inr [4])" by code_simp
  have g2: "parseTime ''3'' daysInMonthMin daysInMonthMax = Some (Inr [3])" by code_simp
  have g3: "parseTime ''2'' monthsMin monthsMax = Some (Inr [2])" by code_simp
  have g4: "parseTime ''1'' weekdaysMin weekdaysMax = Some (Inr [1])" by code_simp
  note t1 = ParseExpression_failure[OF s1, THEN conjunct2, THEN conjunct1]
  note t2 = ParseExpression_failure[OF s2, THEN conjunct2, THEN conjunct2, THEN conjunct1]
  note t3 = ParseExpression_failure[OF s3, THEN conjunct2, THEN conjunct2, THEN conjunct2,
      THEN conjunct1]
  note t4 = ParseExpression_failure[OF s4, THEN conjunct2, THEN conjunct2, THEN conjunct2,
      THEN conjunct2, THEN conjunct1]
  note t5 = ParseExpression_failure[OF s5, THEN conjunct2, THEN conjunct2, THEN conjunct2,
      THEN conjunct2, THEN conjunct2, THEN conjunct1]
  note t6 = ParseExpression_failure[OF s6, THEN conjunct2, THEN conjunct2, THEN conjunct2,
      THEN conjunct2, THEN conjunct2, THEN conjunct2, THEN conjunct1]
  from t1 f0 have 1: "ParseExpression ''x'' =
     Some (Return zero_Expression
       (Some (InvalidMinutesArg (CouldNotParseExactValue (CouldNotParseValue ErrSyntax)))))"
    by simp
  from t2 g0 f1 have 2: "ParseExpression ''5 24'' =
     Some (Return (zero_Expression\<lparr>Minutes := [5]\<rparr>)
       (Some (InvalidHoursArg (CouldNotParseExactValue (ValueMustBeInRange 0 23)))))"
    by simp
  from t3 g0 g1 f2 have 3: "ParseExpression ''5 4 0 * * cmd'' =
     Some (Return (zero_Expression\<lparr>Minutes := [5], Hours := [4]\<rparr>)
       (Some (InvalidMonthdaysArg (CouldNotParseExactValue (ValueMustBeInRange 1 31)))))"
    by simp
  from t4 g0 g1 g2 f3 have 4: "ParseExpression ''5 4 3 1- * cmd'' =
     Some (Return (zero_Expression\<lparr>Minutes := [5], Hours := [4], MonthDays := [3]\<rparr>)
       (Some (InvalidMonthArg (InvalidEndOfRange [] (CouldNotParseValue ErrSyntax)))))"
    by simp
  from t5 g0 g1 g2 g3 f4 have 5: "ParseExpression ''5 4 3 2 1,,2 cmd'' =
     Some (Return (zero_Expression\<lparr>Minutes := [5], Hours := [4], MonthDays := [3],
                     Months := [2]\<rparr>)
       (Some (InvalidWeekdaysArg ExpectedStep)))"
    by simp
  from t6 g0 g1 g2 g3 g4 have 6: "ParseExpression ''5 4 3 2 1 '' =
     Some (Return (zero_Expression\<lparr>Minutes := [5], Hours := [4], MonthDays := [3],
                     Months := [2], WeekDays := [1]\<rparr>)
       (Some ExpectedCommand))"
    by simp
  from 1 2 3 4 5 6 show ?thesis by (intro conjI)
qed

text \<open>
  Claim C8 as it is written says that no expanded structure is returned on failure. On
  the line \<^verbatim>\<open>5 x * * * cmd\<close> the hours fail, and the expression returned with the error
  holds the expanded minutes.
\<close>

theorem ParseExpression_partial_counterexample:
  "ParseExpression ''5 x * * * cmd'' =
     Some (Return (zero_Expression\<lparr>Minutes := [5]\<rparr>)
       (Some (InvalidHoursArg (CouldNotParseExactValue (CouldNotParseValue ErrSyntax))))) \<and>
   zero_Expression\<lparr>Minutes := [5]\<rparr> \<noteq> zero_Expression"
  by code_simp

text \<open>
  Claim C4: when \<^verbatim>\<open>ParseExpression\<close> succeeds (it returns with a nil error), every
  integer of the minutes lies in \<open>[0, 59]\<close>, of the hours in \<open>[0, 23]\<close>, of the days of the
  month in \<open>[1, 31]\<close>, of the months in \<open>[1, 12]\<close>, of the days of the week in \<open>[0, 6]\<close>,
  and the command is not empty.
\<close>

theorem ParseExpression_within_bounds:
  assumes "ParseExpression line = Some (Return e None)"
  shows "(\<forall>x\<in>set (Minutes e). 0 \<le> x \<and> x \<le> 59) \<and>
         (\<forall>x\<in>set (Hours e). 0 \<le> x \<and> x \<le> 23) \<and>
         (\<forall>x\<in>set (MonthDays e). 1 \<le> x \<and> x \<le> 31) \<and>
         (\<forall>x\<in>set (Months e). 1 \<le> x \<and> x \<le> 12) \<and>
         (\<forall>x\<in>set (WeekDays e). 0 \<le> x \<and> x \<le> 6) \<and>
         Command e \<noteq> []"
proof -
  let ?args = "SplitN line CHR '' '' numExressionArgs"
  from assms obtain v0 v1 v2 v3 v4 where
    p: "parseTime (?args ! 0) minutesMin minutesMax = Some (Inr v0)"
       "parseTime (?args ! 1) hoursMin hoursMax = Some (Inr v1)"
       "parseTime (?args ! 2) daysInMonthMin daysInMonthMax = Some (Inr v2)"
       "parseTime (?args ! 3) monthsMin monthsMax = Some (Inr v3)"
       "parseTime (?args ! 4) weekdaysMin weekdaysMax = Some (Inr v4)"
    and c: "?args ! 5 \<noteq> []"
    and e: "e = \<lparr>Minutes = v0, Hours = v1, MonthDays = v2, Months = v3, WeekDays = v4,
                Command = ?args ! 5\<rparr>"
    by (auto simp: ParseExpression_def Let_def zero_Expression_def
        split: if_splits option.splits sum.splits)
  note w = parseTime_within[OF canonical_small(1) p(1)] parseTime_within[OF canonical_small(2) p(2)]
    parseTime_within[OF canonical_small(3) p(3)] parseTime_within[OF canonical_small(4) p(4)]
    parseTime_within[OF canonical_small(5) p(5)]
  from w c show ?thesis
    unfolding e
    by (simp add: minutesMin_def minutesMax_def hoursMin_def hoursMax_def daysInMonthMin_def
        daysInMonthMax_def monthsMin_def monthsMax_def weekdaysMin_def weekdaysMax_def)
qed

text \<open>The theorem at a line that uses an interval, a list, a wildcard and a range.\<close>

theorem ParseExpression_within_bounds_witness:
  "ParseExpression ''*/15 0 1,15 * 1-5 /usr/bin/find'' =
     Some (Return \<lparr>Minutes = [0, 15, 30, 45], Hours = [0], MonthDays = [1, 15],
             Months = [1, 2, 3, 4, 5, 6, 7, 8, 9, 10, 11, 12], WeekDays = [1, 2, 3, 4, 5],
             Command = ''/usr/bin/find''\<rparr> None) \<and>
   (\<exists>e. ParseExpression ''*/15 0 1,15 * 1-5 /usr/bin/find'' = Some (Return e None) \<and>
       list_all (\<lambda>x. 0 \<le> x \<and> x \<le> 59) (Minutes e) \<and>
       list_all (\<lambda>x. 0 \<le> x \<and> x \<le> 23) (Hours e) \<and>
       list_all (\<lambda>x. 1 \<le> x \<and> x \<le> 31) (MonthDays e) \<and>
       list_all (\<lambda>x. 1 \<le> x \<and> x \<le> 12) (Months e) \<and>
       list_all (\<lambda>x. 0 \<le> x \<and> x \<le> 6) (WeekDays e) \<and>
       Command e \<noteq> [])"
proof -
  define e where "e = \<lparr>Minutes = [0, 15, 30, 45 :: uint8], Hours = [0 :: uint8],
    MonthDays = [1, 15 :: uint8], Months = [1, 2, 3, 4, 5, 6, 7, 8, 9, 10, 11, 12 :: uint8],
    WeekDays = [1, 2, 3, 4, 5 :: uint8], Command = ''/usr/bin/find''\<rparr>"
  have v: "ParseExpression ''*/15 0 1,15 * 1-5 /usr/bin/find'' =
    Some (Return \<lparr>Minutes = [0, 15, 30, 45], Hours = [0], MonthDays = [1, 15],
            Months = [1, 2, 3, 4, 5, 6, 7, 8, 9, 10, 11, 12], WeekDays = [1, 2, 3, 4, 5],
            Command = ''/usr/bin/find''\<rparr> None)"
    by code_simp
  then have ev: "ParseExpression ''*/15 0 1,15 * 1-5 /usr/bin/find'' = Some (Return e None)"
    by (simp only: e_def)
  note t = ParseExpression_within_bounds[OF ev]
  have "\<exists>e. ParseExpression ''*/15 0 1,15 * 1-5 /usr/bin/find'' = Some (Return e None) \<and>
       list_all (\<lambda>x. 0 \<le> x \<and> x \<le> 59) (Minutes e) \<and>
       list_all (\<lambda>x. 0 \<le> x \<and> x \<le> 23) (Hours e) \<and>
       list_all (\<lambda>x. 1 \<le> x \<and> x \<le> 31) (MonthDays e) \<and>
       list_all (\<lambda>x. 1 \<le> x \<and> x \<le> 12) (Months e) \<and>
       list_all (\<lambda>x. 0 \<le> x \<and> x \<le> 6) (WeekDays e) \<and>
       Command e \<noteq> []"
    using ev t unfolding list_all_iff by blast
  with v show ?thesis by (rule conjI)
qed

section \<open>The command\<close>

lemma SplitN_six:
  assumes "c \<notin> set a0" "c \<notin> set a1" "c \<notin> set a2" "c \<notin> set a3" "c \<notin> set a4"
  shows "SplitN (a0 @ c # a1 @ c # a2 @ c # a3 @ c # a4 @ c # cmd) c numExressionArgs =
           [a0, a1, a2, a3, a4, cmd]"
  using assms by (simp add: SplitN_def numExressionArgs_def eval_nat_numeral Index_append)

lemma length_SplitN: "length (SplitN line c numExressionArgs) \<le> 6"
  using length_genSplit[of line c "(if 6 > length line + 1 then length line + 1 else 6) - 1"]
  by (simp add: SplitN_def numExressionArgs_def split: if_splits)

lemma genSplit_step:
  assumes "length (genSplit s c (Suc k)) = Suc (Suc n)"
  shows "\<exists>a b. s = a @ c # b \<and> c \<notin> set a \<and> genSplit s c (Suc k) = a # genSplit b c k \<and>
               length (genSplit b c k) = Suc n"
proof -
  from assms have "1 < length (genSplit s c (Suc k))" by simp
  from genSplit_uncons[OF this] obtain a b where
    ab: "s = a @ c # b" "c \<notin> set a" "genSplit s c (Suc k) = a # genSplit b c k" by blast
  with assms have "length (genSplit b c k) = Suc n" by simp
  with ab show ?thesis by blast
qed

lemma genSplit_six:
  assumes "length (genSplit s c 5) = 6"
  shows "\<exists>a0 a1 a2 a3 a4 cmd.
           s = a0 @ c # a1 @ c # a2 @ c # a3 @ c # a4 @ c # cmd \<and>
           c \<notin> set a0 \<and> c \<notin> set a1 \<and> c \<notin> set a2 \<and> c \<notin> set a3 \<and> c \<notin> set a4 \<and>
           genSplit s c 5 = [a0, a1, a2, a3, a4, cmd]"
proof -
  have five: "(5::nat) = Suc (Suc (Suc (Suc (Suc 0))))" by simp
  from assms have
    "length (genSplit s c (Suc (Suc (Suc (Suc (Suc 0)))))) = Suc (Suc (Suc (Suc (Suc (Suc 0)))))"
    unfolding five by simp
  from genSplit_step[OF this] obtain a0 b0 where
    0: "s = a0 @ c # b0" "c \<notin> set a0"
       "genSplit s c (Suc (Suc (Suc (Suc (Suc 0))))) = a0 # genSplit b0 c (Suc (Suc (Suc (Suc 0))))"
       "length (genSplit b0 c (Suc (Suc (Suc (Suc 0))))) = Suc (Suc (Suc (Suc (Suc 0))))"
    by blast
  from genSplit_step[OF 0(4)] obtain a1 b1 where
    1: "b0 = a1 @ c # b1" "c \<notin> set a1"
       "genSplit b0 c (Suc (Suc (Suc (Suc 0)))) = a1 # genSplit b1 c (Suc (Suc (Suc 0)))"
       "length (genSplit b1 c (Suc (Suc (Suc 0)))) = Suc (Suc (Suc (Suc 0)))"
    by blast
  from genSplit_step[OF 1(4)] obtain a2 b2 where
    2: "b1 = a2 @ c # b2" "c \<notin> set a2"
       "genSplit b1 c (Suc (Suc (Suc 0))) = a2 # genSplit b2 c (Suc (Suc 0))"
       "length (genSplit b2 c (Suc (Suc 0))) = Suc (Suc (Suc 0))"
    by blast
  from genSplit_step[OF 2(4)] obtain a3 b3 where
    3: "b2 = a3 @ c # b3" "c \<notin> set a3"
       "genSplit b2 c (Suc (Suc 0)) = a3 # genSplit b3 c (Suc 0)"
       "length (genSplit b3 c (Suc 0)) = Suc (Suc 0)"
    by blast
  from genSplit_step[OF 3(4)] obtain a4 b4 where
    4: "b3 = a4 @ c # b4" "c \<notin> set a4"
       "genSplit b3 c (Suc 0) = a4 # genSplit b4 c 0"
    by blast
  have "genSplit s c 5 = [a0, a1, a2, a3, a4, b4]"
    unfolding five 0(3) 1(3) 2(3) 3(3) 4(3) by simp
  moreover have "s = a0 @ c # a1 @ c # a2 @ c # a3 @ c # a4 @ c # b4"
    unfolding 0(1) 1(1) 2(1) 3(1) 4(1) ..
  ultimately show ?thesis using 0(2) 1(2) 2(2) 3(2) 4(2) by blast
qed

lemma SplitN_six_parts:
  assumes "length (SplitN line c numExressionArgs) = 6"
  shows "\<exists>a0 a1 a2 a3 a4 cmd.
           line = a0 @ c # a1 @ c # a2 @ c # a3 @ c # a4 @ c # cmd \<and>
           c \<notin> set a0 \<and> c \<notin> set a1 \<and> c \<notin> set a2 \<and> c \<notin> set a3 \<and> c \<notin> set a4 \<and>
           SplitN line c numExressionArgs = [a0, a1, a2, a3, a4, cmd]"
proof (cases "6 > length line + 1")
  case True
  with length_genSplit[of line c "length line"] assms show ?thesis
    by (simp add: SplitN_def numExressionArgs_def)
next
  case False
  then have "SplitN line c numExressionArgs = genSplit line c 5"
    by (simp add: SplitN_def numExressionArgs_def)
  with genSplit_six[of line c] assms show ?thesis by simp
qed

lemma ParseExpression_six:
  assumes "SplitN line CHR '' '' numExressionArgs = [a0, a1, a2, a3, a4, cmd]"
    and "parseTime a0 minutesMin minutesMax = Some (Inr v0)"
    and "parseTime a1 hoursMin hoursMax = Some (Inr v1)"
    and "parseTime a2 daysInMonthMin daysInMonthMax = Some (Inr v2)"
    and "parseTime a3 monthsMin monthsMax = Some (Inr v3)"
    and "parseTime a4 weekdaysMin weekdaysMax = Some (Inr v4)"
  shows "ParseExpression line =
           (if cmd = []
            then Some (Return \<lparr>Minutes = v0, Hours = v1, MonthDays = v2, Months = v3,
                               WeekDays = v4, Command = []\<rparr> (Some ExpectedCommand))
            else Some (Return \<lparr>Minutes = v0, Hours = v1, MonthDays = v2, Months = v3,
                               WeekDays = v4, Command = cmd\<rparr> None))"
  using assms by (simp add: ParseExpression_def Let_def zero_Expression_def)

text \<open>
  Claim C9. \<^verbatim>\<open>ParseExpression\<close> splits the line into at most six parts. A line has six
  parts exactly when it is five parts without a space, each followed by a space, and a
  remainder; the split cuts at these first five spaces and the remainder, with all its
  spaces, is the sixth part. When the split has six parts and the five fields parse, the
  call fails if and only if the sixth part is empty, with the empty-command error, and on
  success the command is the sixth part as it stands.
\<close>

theorem ParseExpression_command:
  "length (SplitN line CHR '' '' numExressionArgs) \<le> 6 \<and>
   (length (SplitN line CHR '' '' numExressionArgs) = 6 \<longrightarrow>
      (\<exists>a0 a1 a2 a3 a4 cmd.
         line = a0 @ CHR '' '' # a1 @ CHR '' '' # a2 @ CHR '' '' # a3 @ CHR '' '' # a4 @
                CHR '' '' # cmd \<and>
         CHR '' '' \<notin> set a0 \<and> CHR '' '' \<notin> set a1 \<and> CHR '' '' \<notin> set a2 \<and>
         CHR '' '' \<notin> set a3 \<and> CHR '' '' \<notin> set a4 \<and>
         SplitN line CHR '' '' numExressionArgs = [a0, a1, a2, a3, a4, cmd])) \<and>
   (CHR '' '' \<notin> set b0 \<and> CHR '' '' \<notin> set b1 \<and> CHR '' '' \<notin> set b2 \<and>
    CHR '' '' \<notin> set b3 \<and> CHR '' '' \<notin> set b4 \<longrightarrow>
      SplitN (b0 @ CHR '' '' # b1 @ CHR '' '' # b2 @ CHR '' '' # b3 @ CHR '' '' # b4 @
              CHR '' '' # rest) CHR '' '' numExressionArgs = [b0, b1, b2, b3, b4, rest]) \<and>
   (SplitN line CHR '' '' numExressionArgs = [c0, c1, c2, c3, c4, cmd] \<and>
    parseTime c0 minutesMin minutesMax = Some (Inr v0) \<and>
    parseTime c1 hoursMin hoursMax = Some (Inr v1) \<and>
    parseTime c2 daysInMonthMin daysInMonthMax = Some (Inr v2) \<and>
    parseTime c3 monthsMin monthsMax = Some (Inr v3) \<and>
    parseTime c4 weekdaysMin weekdaysMax = Some (Inr v4) \<longrightarrow>
      ParseExpression line =
        (if cmd = []
         then Some (Return \<lparr>Minutes = v0, Hours = v1, MonthDays = v2, Months = v3,
                            WeekDays = v4, Command = []\<rparr> (Some ExpectedCommand))
         else Some (Return \<lparr>Minutes = v0, Hours = v1, MonthDays = v2, Months = v3,
                            WeekDays = v4, Command = cmd\<rparr> None)))"
proof -
  note 1 = length_SplitN[of line "CHR '' ''"]
  have 2: "length (SplitN line CHR '' '' numExressionArgs) = 6 \<longrightarrow>
      (\<exists>a0 a1 a2 a3 a4 cmd.
         line = a0 @ CHR '' '' # a1 @ CHR '' '' # a2 @ CHR '' '' # a3 @ CHR '' '' # a4 @
                CHR '' '' # cmd \<and>
         CHR '' '' \<notin> set a0 \<and> CHR '' '' \<notin> set a1 \<and> CHR '' '' \<notin> set a2 \<and>
         CHR '' '' \<notin> set a3 \<and> CHR '' '' \<notin> set a4 \<and>
         SplitN line CHR '' '' numExressionArgs = [a0, a1, a2, a3, a4, cmd])"
    by (rule impI) (rule SplitN_six_parts)
  have 3: "CHR '' '' \<notin> set b0 \<and> CHR '' '' \<notin> set b1 \<and> CHR '' '' \<notin> set b2 \<and>
    CHR '' '' \<notin> set b3 \<and> CHR '' '' \<notin> set b4 \<longrightarrow>
      SplitN (b0 @ CHR '' '' # b1 @ CHR '' '' # b2 @ CHR '' '' # b3 @ CHR '' '' # b4 @
              CHR '' '' # rest) CHR '' '' numExressionArgs = [b0, b1, b2, b3, b4, rest]"
    by (intro impI, elim conjE) (rule SplitN_six)
  have 4: "SplitN line CHR '' '' numExressionArgs = [c0, c1, c2, c3, c4, cmd] \<and>
    parseTime c0 minutesMin minutesMax = Some (Inr v0) \<and>
    parseTime c1 hoursMin hoursMax = Some (Inr v1) \<and>
    parseTime c2 daysInMonthMin daysInMonthMax = Some (Inr v2) \<and>
    parseTime c3 monthsMin monthsMax = Some (Inr v3) \<and>
    parseTime c4 weekdaysMin weekdaysMax = Some (Inr v4) \<longrightarrow>
      ParseExpression line =
        (if cmd = []
         then Some (Return \<lparr>Minutes = v0, Hours = v1, MonthDays = v2, Months = v3,
                            WeekDays = v4, Command = []\<rparr> (Some ExpectedCommand))
         else Some (Return \<lparr>Minutes = v0, Hours = v1, MonthDays = v2, Months = v3,
                            WeekDays = v4, Command = cmd\<rparr> None))"
    by (intro impI, elim conjE) (rule ParseExpression_six)
  show ?thesis by (rule conjI[OF 1 conjI[OF 2 conjI[OF 3 4]]])
qed

text \<open>
  The theorem at a line whose command has spaces, two of them in a row, and at a line that
  ends with the fifth space.
\<close>

theorem ParseExpression_command_witness:
  "SplitN ''5 4 3 2 1 echo hi  there'' CHR '' '' numExressionArgs =
     [''5'', ''4'', ''3'', ''2'', ''1'', ''echo hi  there''] \<and>
   ParseExpression ''5 4 3 2 1 echo hi  there'' =
     Some (Return \<lparr>Minutes = [5], Hours = [4], MonthDays = [3], Months = [2], WeekDays = [1],
                    Command = ''echo hi  there''\<rparr> None) \<and>
   ParseExpression ''5 4 3 2 1 '' =
     Some (Return \<lparr>Minutes = [5], Hours = [4], MonthDays = [3], Months = [2], WeekDays = [1],
                    Command = []\<rparr> (Some ExpectedCommand)) \<and>
   (\<exists>a0 a1 a2 a3 a4 cmd.
      ''5 4 3 2 1 echo hi  there'' =
        a0 @ CHR '' '' # a1 @ CHR '' '' # a2 @ CHR '' '' # a3 @ CHR '' '' # a4 @ CHR '' '' # cmd \<and>
      CHR '' '' \<notin> set a0 \<and> CHR '' '' \<notin> set a1 \<and> CHR '' '' \<notin> set a2 \<and>
      CHR '' '' \<notin> set a3 \<and> CHR '' '' \<notin> set a4 \<and>
      SplitN ''5 4 3 2 1 echo hi  there'' CHR '' '' numExressionArgs =
        [a0, a1, a2, a3, a4, cmd])"
proof -
  have g0: "parseTime ''5'' minutesMin minutesMax = Some (Inr [5])" by code_simp
  have g1: "parseTime ''4'' hoursMin hoursMax = Some (Inr [4])" by code_simp
  have g2: "parseTime ''3'' daysInMonthMin daysInMonthMax = Some (Inr [3])" by code_simp
  have g3: "parseTime ''2'' monthsMin monthsMax = Some (Inr [2])" by code_simp
  have g4: "parseTime ''1'' weekdaysMin weekdaysMax = Some (Inr [1])" by code_simp
  have ns: "CHR '' '' \<notin> set ''5''" "CHR '' '' \<notin> set ''4''" "CHR '' '' \<notin> set ''3''"
    "CHR '' '' \<notin> set ''2''" "CHR '' '' \<notin> set ''1''" by simp_all
  note a = ParseExpression_command[of "''5 4 3 2 1 echo hi  there''" "''5''" "''4''" "''3''"
      "''2''" "''1''" "''echo hi  there''" "''5''" "''4''" "''3''" "''2''" "''1''"
      "''echo hi  there''" "[5]" "[4]" "[3]" "[2]" "[1]"]
  note b = ParseExpression_command[of "''5 4 3 2 1 ''" "''5''" "''4''" "''3''"
      "''2''" "''1''" "[]" "''5''" "''4''" "''3''" "''2''" "''1''"
      "[]" "[5]" "[4]" "[3]" "[2]" "[1]"]
  from a[THEN conjunct2, THEN conjunct2, THEN conjunct1] ns
  have 1: "SplitN ''5 4 3 2 1 echo hi  there'' CHR '' '' numExressionArgs =
     [''5'', ''4'', ''3'', ''2'', ''1'', ''echo hi  there'']" by simp
  from a[THEN conjunct2, THEN conjunct2, THEN conjunct2] 1 g0 g1 g2 g3 g4
  have 2: "ParseExpression ''5 4 3 2 1 echo hi  there'' =
     Some (Return \<lparr>Minutes = [5], Hours = [4], MonthDays = [3], Months = [2], WeekDays = [1],
                    Command = ''echo hi  there''\<rparr> None)" by simp
  from b[THEN conjunct2, THEN conjunct2, THEN conjunct1] ns
  have "SplitN ''5 4 3 2 1 '' CHR '' '' numExressionArgs = [''5'', ''4'', ''3'', ''2'', ''1'', []]"
    by simp
  with b[THEN conjunct2, THEN conjunct2, THEN conjunct2] g0 g1 g2 g3 g4
  have 3: "ParseExpression ''5 4 3 2 1 '' =
     Some (Return \<lparr>Minutes = [5], Hours = [4], MonthDays = [3], Months = [2], WeekDays = [1],
                    Command = []\<rparr> (Some ExpectedCommand))" by simp
  from a[THEN conjunct2, THEN conjunct1] 1
  have 4: "\<exists>a0 a1 a2 a3 a4 cmd.
      ''5 4 3 2 1 echo hi  there'' =
        a0 @ CHR '' '' # a1 @ CHR '' '' # a2 @ CHR '' '' # a3 @ CHR '' '' # a4 @ CHR '' '' # cmd \<and>
      CHR '' '' \<notin> set a0 \<and> CHR '' '' \<notin> set a1 \<and> CHR '' '' \<notin> set a2 \<and>
      CHR '' '' \<notin> set a3 \<and> CHR '' '' \<notin> set a4 \<and>
      SplitN ''5 4 3 2 1 echo hi  there'' CHR '' '' numExressionArgs =
        [a0, a1, a2, a3, a4, cmd]" by simp
  from 1 2 3 4 show ?thesis by (intro conjI)
qed

section \<open>The expression assembler on short input\<close>

text \<open>
  Claim C1 asks that a line whose split has fewer than six parts is answered with an
  error and never with an access out of bounds. The code does not do that: on the line
  of five wildcard fields and no command all five fields parse, and the index expression
  \<^verbatim>\<open>args[5]\<close> then panics with index 5 on a slice of length 5.
\<close>

theorem ParseExpression_short_line_panics:
  "ParseExpression ''* * * * *'' = Some (Panic 5 5)"
  by code_simp

section \<open>An accepted token with an empty expansion\<close>

text \<open>
  Claim C10: the field dispatcher accepts the token \<^verbatim>\<open>59/1\<close> at the minutes bound
  and returns the empty sequence: the starting point 59 is not below the maximum 59, so
  the loop of the interval expander appends nothing. A successful parse does not
  guarantee a non-empty expanded field.
\<close>

theorem parseTime_empty_expansion:
  "parseTime ''59/1'' minutesMin minutesMax = Some (Inr [])"
  by code_simp

end
